theory Spec2Isabelle
  imports Complex_Main
begin

section \<open>Numbers, configuration and vectors\<close>

text \<open>
  The program is \<^verbatim>\<open>src/script.js\<close>. Array indices and loop counters are
  naturals; a JavaScript number is a real. The constant \<^verbatim>\<open>CONFIG\<close> of the
  script is a record; only the two fields read by the generator are kept, the other
  five are parameters of the rendering pipeline.
\<close>

record config =
  neuronCount :: nat
  connectionDistance :: real

definition CONFIG :: config where
  "CONFIG = \<lparr>neuronCount = 2000, connectionDistance = 15\<rparr>"

subsection \<open>Double precision\<close>

text \<open>
  A JavaScript number is an IEEE 754 binary64 value, and every arithmetic operation
  returns the double nearest to the exact result, ties going to the even mantissa.
  \<open>rnd\<close> is that rounding on the reals: the exact value is scaled by the unit in
  the last place of its binade (exponent \<open>ulpExponent\<close>, with 53 significant
  bits and the subnormal floor \<open>2 powr - 1074\<close>), rounded to an integer and scaled
  back. A literal such as \<^verbatim>\<open>0.05\<close> denotes \<open>rnd 0.05\<close>.

  Two things a double can be are left out. Overflow: beyond \<open>2 ^ 1024\<close> the script
  gets \<^verbatim>\<open>Infinity\<close> where \<open>rnd\<close> keeps rounding, so the theorems that rest on
  the rounding assume magnitudes (\<open>doubleWithin\<close>) for which no operation
  overflows. \<^verbatim>\<open>NaN\<close>: no operation of the script produces one from finite
  numbers in that range.

  The distance test of the scan and the double-precision frame \<open>animate64\<close> are
  written with \<open>rnd\<close> after every operation. The update rules \<open>animate\<close>,
  \<open>wheel\<close>, \<open>mousemove\<close> and the sampling loop are written with the exact
  operations.
\<close>

definition ulpExponent :: "real \<Rightarrow> int" where
  "ulpExponent x = max (\<lfloor>log 2 \<bar>x\<bar>\<rfloor> - 52) (- 1074)"

definition roundTiesToEven :: "real \<Rightarrow> int" where
  "roundTiesToEven y =
     (let f = \<lfloor>y\<rfloor>
      in if y - of_int f < 1 / 2 then f
         else if 1 / 2 < y - of_int f then f + 1
         else if even f then f
         else f + 1)"

definition rnd :: "real \<Rightarrow> real" where
  "rnd x =
     (if x = 0 then 0
      else of_int (roundTiesToEven (x / 2 powr of_int (ulpExponent x)))
             * 2 powr of_int (ulpExponent x))"

definition isDouble :: "real \<Rightarrow> bool" where
  "isDouble x \<longleftrightarrow> rnd x = x \<and> \<bar>x\<bar> < 2 ^ 1024"

definition doubleWithin :: "real \<Rightarrow> real \<Rightarrow> bool" where
  "doubleWithin bound x \<longleftrightarrow> isDouble x \<and> \<bar>x\<bar> \<le> bound"

subsection \<open>Vectors\<close>

text \<open>
  \<^verbatim>\<open>THREE.Vector3\<close>: three numbers, with the library's \<^verbatim>\<open>distanceToSquared\<close>
  (\<^verbatim>\<open>dx * dx + dy * dy + dz * dz\<close> of the three differences) and
  \<^verbatim>\<open>distanceTo\<close> (\<^verbatim>\<open>Math.sqrt\<close> of it), each operation rounded;
  \<^verbatim>\<open>Math.sqrt\<close> is the correctly rounded square root. \<open>euclidean\<close> is the
  exact distance between the same two points.
\<close>

datatype Vector3 = Vector3 (vx: real) (vy: real) (vz: real)

definition distanceToSquared :: "Vector3 \<Rightarrow> Vector3 \<Rightarrow> real" where
  "distanceToSquared a b =
     (let dx = rnd (vx a - vx b); dy = rnd (vy a - vy b); dz = rnd (vz a - vz b)
      in rnd (rnd (rnd (dx * dx) + rnd (dy * dy)) + rnd (dz * dz)))"

definition distanceTo :: "Vector3 \<Rightarrow> Vector3 \<Rightarrow> real" where
  "distanceTo a b = rnd (sqrt (distanceToSquared a b))"

definition euclidean :: "Vector3 \<Rightarrow> Vector3 \<Rightarrow> real" where
  "euclidean a b = sqrt ((vx a - vx b)\<^sup>2 + (vy a - vy b)\<^sup>2 + (vz a - vz b)\<^sup>2)"

text \<open>
  \<^verbatim>\<open>p.set(positions[i * 3], positions[i * 3 + 1], positions[i * 3 + 2])\<close>: the
  point with index \<open>i\<close> of a flat coordinate array. The script only reads indices
  below \<^verbatim>\<open>3 * neuronCount\<close>, the length of the array it has just filled.
\<close>

definition vectorAt :: "real list \<Rightarrow> nat \<Rightarrow> Vector3" where
  "vectorAt ps i = Vector3 (ps ! (i * 3)) (ps ! (i * 3 + 1)) (ps ! (i * 3 + 2))"

section \<open>Synapses: the nested scan of generateNeuralNetwork\<close>

text \<open>
  Lines 122 to 137. The inner loop over \<open>j\<close> carries the counter \<^verbatim>\<open>connections\<close>
  and the output array; \<open>push\<close> is what one emitted connection appends. The script
  appends the six coordinates of \<open>p1\<close> and \<open>p2\<close> (\<open>pushLine\<close>); the same scan with
  \<open>pushPair\<close> records the two indices instead.
\<close>

function innerScan ::
  "(nat \<Rightarrow> Vector3 \<Rightarrow> nat \<Rightarrow> Vector3 \<Rightarrow> 'a list) \<Rightarrow> config \<Rightarrow> real list \<Rightarrow>
   nat \<Rightarrow> Vector3 \<Rightarrow> nat \<Rightarrow> nat \<Rightarrow> 'a list \<Rightarrow> 'a list" where
  "innerScan push cfg ps i p1 j connections out =
     (if j < neuronCount cfg then
        (let p2 = vectorAt ps j;
             dist = distanceTo p1 p2
         in if dist < connectionDistance cfg then
              (let out' = out @ push i p1 j p2;
                   connections' = connections + 1
               in if connections' > 5 then out'
                  else innerScan push cfg ps i p1 (j + 1) connections' out')
            else innerScan push cfg ps i p1 (j + 1) connections out)
      else out)"
  by pat_completeness auto
termination
  by (relation "measure (\<lambda>(push, cfg, ps, i, p1, j, connections, out). neuronCount cfg - j)")
     auto

function outerScan ::
  "(nat \<Rightarrow> Vector3 \<Rightarrow> nat \<Rightarrow> Vector3 \<Rightarrow> 'a list) \<Rightarrow> config \<Rightarrow> real list \<Rightarrow>
   nat \<Rightarrow> 'a list \<Rightarrow> 'a list" where
  "outerScan push cfg ps i out =
     (if i < neuronCount cfg then
        (let p1 = vectorAt ps i;
             connections = 0
         in outerScan push cfg ps (i + 1) (innerScan push cfg ps i p1 (i + 1) connections out))
      else out)"
  by pat_completeness auto
termination
  by (relation "measure (\<lambda>(push, cfg, ps, i, out). neuronCount cfg - i)") auto

declare innerScan.simps [simp del] outerScan.simps [simp del]

definition pushLine :: "nat \<Rightarrow> Vector3 \<Rightarrow> nat \<Rightarrow> Vector3 \<Rightarrow> real list" where
  "pushLine i p1 j p2 = [vx p1, vy p1, vz p1] @ [vx p2, vy p2, vz p2]"

definition pushPair :: "nat \<Rightarrow> Vector3 \<Rightarrow> nat \<Rightarrow> Vector3 \<Rightarrow> (nat \<times> nat) list" where
  "pushPair i p1 j p2 = [(i, j)]"

definition generateSynapses :: "config \<Rightarrow> real list \<Rightarrow> real list" where
  "generateSynapses cfg ps = outerScan pushLine cfg ps 0 []"

definition connectionPairs :: "config \<Rightarrow> real list \<Rightarrow> (nat \<times> nat) list" where
  "connectionPairs cfg ps = outerScan pushPair cfg ps 0 []"

text \<open>
  The scan as the specification words it: for each \<open>i\<close> in ascending order, the
  points \<open>j > i\<close> in ascending order that are closer than the threshold, cut after
  the sixth (the counter has then exceeded the cap of five).
\<close>

definition near :: "config \<Rightarrow> real list \<Rightarrow> nat \<Rightarrow> nat \<Rightarrow> bool" where
  "near cfg ps i j \<longleftrightarrow> distanceTo (vectorAt ps i) (vectorAt ps j) < connectionDistance cfg"

definition neighbours :: "config \<Rightarrow> real list \<Rightarrow> nat \<Rightarrow> nat list" where
  "neighbours cfg ps i = take 6 (filter (near cfg ps i) [i + 1 ..< neuronCount cfg])"

definition scanOrder :: "config \<Rightarrow> real list \<Rightarrow> (nat \<times> nat) list" where
  "scanOrder cfg ps =
     concat (map (\<lambda>i. map (Pair i) (neighbours cfg ps i)) [0 ..< neuronCount cfg])"

definition lineOf :: "real list \<Rightarrow> nat \<times> nat \<Rightarrow> real list" where
  "lineOf ps e =
     [vx (vectorAt ps (fst e)), vy (vectorAt ps (fst e)), vz (vectorAt ps (fst e)),
      vx (vectorAt ps (snd e)), vy (vectorAt ps (snd e)), vz (vectorAt ps (snd e))]"

section \<open>Neurons: the sampling loop of generateNeuralNetwork\<close>

text \<open>
  Lines 69 to 93. \<^verbatim>\<open>Math.random()\<close> reads the next element of a sequence of
  draws, each in \<open>[0, 1)\<close>; the state threaded through the loop is the number of
  draws made so far and the three arrays. \<^verbatim>\<open>Color.setHex\<close> belongs to the
  rendering library and is a parameter: it turns the chosen hex code into the three
  channels that are pushed.
\<close>

definition Math_random :: "(nat \<Rightarrow> real) \<Rightarrow> nat \<Rightarrow> real \<times> nat" where
  "Math_random draws k = (draws k, k + 1)"

record neurons =
  positions :: "real list"
  colors :: "real list"
  sizes :: "real list"

definition sphericalPoint :: "real \<Rightarrow> real \<Rightarrow> real \<Rightarrow> Vector3" where
  "sphericalPoint r theta phi =
     Vector3 (r * sin phi * cos theta) (r * sin phi * sin theta) (r * cos phi)"

definition colorHex :: "real \<Rightarrow> nat" where
  "colorHex colorType =
     (if colorType > 0.9 then 0xffd700
      else if colorType > 0.6 then 0x00ffff
      else 0xffffff)"

definition neuronStep ::
  "(nat \<Rightarrow> real \<times> real \<times> real) \<Rightarrow> (nat \<Rightarrow> real) \<Rightarrow> nat \<times> neurons \<Rightarrow> nat \<times> neurons" where
  "neuronStep setHex draws s =
     (let (k, arrays) = s;
          (u, k) = Math_random draws k;
          r = 40 * root 3 u;
          (u, k) = Math_random draws k;
          theta = u * pi * 2;
          (u, k) = Math_random draws k;
          phi = arccos (2 * u - 1);
          p = sphericalPoint r theta phi;
          x = vx p;
          y = vy p;
          z = vz p;
          y = y * 0.6;
          (colorType, k) = Math_random draws k;
          (cr, cg, cb) = setHex (colorHex colorType);
          (u, k) = Math_random draws k
      in (k, arrays\<lparr>positions := positions arrays @ [x, y, z],
                     colors := colors arrays @ [cr, cg, cb],
                     sizes := sizes arrays @ [u * 2 + 1]\<rparr>))"

function neuronLoop ::
  "(nat \<Rightarrow> real \<times> real \<times> real) \<Rightarrow> config \<Rightarrow> (nat \<Rightarrow> real) \<Rightarrow> nat \<Rightarrow>
   nat \<times> neurons \<Rightarrow> nat \<times> neurons" where
  "neuronLoop setHex cfg draws i s =
     (if i < neuronCount cfg then neuronLoop setHex cfg draws (i + 1) (neuronStep setHex draws s)
      else s)"
  by pat_completeness auto
termination
  by (relation "measure (\<lambda>(setHex, cfg, draws, i, s). neuronCount cfg - i)") auto

declare neuronLoop.simps [simp del]

definition generateNeurons ::
  "(nat \<Rightarrow> real \<times> real \<times> real) \<Rightarrow> config \<Rightarrow> (nat \<Rightarrow> real) \<Rightarrow> neurons" where
  "generateNeurons setHex cfg draws =
     snd (neuronLoop setHex cfg draws 0 (0, \<lparr>positions = [], colors = [], sizes = []\<rparr>))"

text \<open>The whole function: the neuron arrays, then the line array built from the positions.\<close>

definition generateNeuralNetwork ::
  "(nat \<Rightarrow> real \<times> real \<times> real) \<Rightarrow> config \<Rightarrow> (nat \<Rightarrow> real) \<Rightarrow> neurons \<times> real list" where
  "generateNeuralNetwork setHex cfg draws =
     (let arrays = generateNeurons setHex cfg draws;
          linePositions = generateSynapses cfg (positions arrays)
      in (arrays, linePositions))"

text \<open>The \<open>i\<close>-th neuron as the loop body computes it from its five draws.\<close>

definition neuronPoint :: "(nat \<Rightarrow> real) \<Rightarrow> nat \<Rightarrow> Vector3" where
  "neuronPoint draws i =
     sphericalPoint (40 * root 3 (draws (5 * i))) (draws (5 * i + 1) * pi * 2)
       (arccos (2 * draws (5 * i + 2) - 1))"

definition positionOf :: "(nat \<Rightarrow> real) \<Rightarrow> nat \<Rightarrow> real list" where
  "positionOf draws i =
     [vx (neuronPoint draws i), vy (neuronPoint draws i) * 0.6, vz (neuronPoint draws i)]"

definition colorOf :: "(nat \<Rightarrow> real \<times> real \<times> real) \<Rightarrow> (nat \<Rightarrow> real) \<Rightarrow> nat \<Rightarrow> real list" where
  "colorOf setHex draws i =
     [fst (setHex (colorHex (draws (5 * i + 3)))),
      fst (snd (setHex (colorHex (draws (5 * i + 3))))),
      snd (snd (setHex (colorHex (draws (5 * i + 3)))))]"

section \<open>Interaction and the animation step\<close>

text \<open>
  Lines 159 to 200. The script's global variables, the camera position and the two
  \<^verbatim>\<open>time\<close> uniforms form the state; each listener and each frame is a function
  on it. \<^verbatim>\<open>clock.getElapsedTime()\<close> is the argument of \<open>animate\<close>.
\<close>

record state =
  mouseX :: real
  mouseY :: real
  targetRadius :: real
  targetY :: real
  cameraPosition :: Vector3
  neuronTime :: real
  synapseTime :: real

definition initialState :: state where
  "initialState =
     \<lparr>mouseX = 0, mouseY = 0, targetRadius = 80, targetY = 0,
      cameraPosition = Vector3 0 0 100, neuronTime = 0, synapseTime = 0\<rparr>"

definition mousemove :: "real \<Rightarrow> real \<Rightarrow> real \<Rightarrow> real \<Rightarrow> state \<Rightarrow> state" where
  "mousemove clientX clientY innerWidth innerHeight s =
     s\<lparr>mouseX := (clientX - innerWidth / 2) * 0.1,
       mouseY := (clientY - innerHeight / 2) * 0.1\<rparr>"

definition wheel :: "real \<Rightarrow> state \<Rightarrow> state" where
  "wheel deltaY s =
     (let s = s\<lparr>targetRadius := targetRadius s + deltaY * 0.1\<rparr>
      in s\<lparr>targetRadius := max 20 (min 200 (targetRadius s))\<rparr>)"

definition animate :: "real \<Rightarrow> state \<Rightarrow> state" where
  "animate time s =
     (let s = s\<lparr>neuronTime := time, synapseTime := time\<rparr>;
          speed = 0.1;
          angle = time * speed + mouseX s * 0.01;
          p = cameraPosition s;
          p = Vector3 (vx p + (sin angle * targetRadius s - vx p) * 0.05) (vy p) (vz p);
          p = Vector3 (vx p) (vy p) (vz p + (cos angle * targetRadius s - vz p) * 0.05);
          p = Vector3 (vx p) (vy p + (mouseY s - vy p) * 0.05) (vz p)
      in s\<lparr>cameraPosition := p\<rparr>)"

datatype event =
  Mousemove real real real real
  | Wheel real
  | Frame real

fun handle :: "state \<Rightarrow> event \<Rightarrow> state" where
  "handle s (Mousemove clientX clientY innerWidth innerHeight) =
     mousemove clientX clientY innerWidth innerHeight s"
| "handle s (Wheel deltaY) = wheel deltaY s"
| "handle s (Frame time) = animate time s"

definition run :: "event list \<Rightarrow> state" where
  "run events = foldl handle initialState events"

text \<open>The orbit target of a frame, and whether a value lies between two others.\<close>

definition desired :: "real \<Rightarrow> state \<Rightarrow> Vector3" where
  "desired time s =
     (let angle = time * 0.1 + mouseX s * 0.01
      in Vector3 (sin angle * targetRadius s) (mouseY s) (cos angle * targetRadius s))"

definition between :: "real \<Rightarrow> real \<Rightarrow> real \<Rightarrow> bool" where
  "between a b v \<longleftrightarrow> min a b \<le> v \<and> v \<le> max a b"

text \<open>
  The frame in double precision: the same statements with every operation rounded.
  \<^verbatim>\<open>Math.sin\<close> and \<^verbatim>\<open>Math.cos\<close> are approximated by the JavaScript engine
  as it sees fit, so they are parameters. \<open>desired64\<close> is the orbit target as the
  frame computes it.
\<close>

definition animate64 :: "(real \<Rightarrow> real) \<Rightarrow> (real \<Rightarrow> real) \<Rightarrow> real \<Rightarrow> state \<Rightarrow> state" where
  "animate64 Math_sin Math_cos time s =
     (let s = s\<lparr>neuronTime := time, synapseTime := time\<rparr>;
          speed = rnd 0.1;
          angle = rnd (rnd (time * speed) + rnd (mouseX s * rnd 0.01));
          p = cameraPosition s;
          p = Vector3 (rnd (vx p + rnd (rnd (rnd (Math_sin angle * targetRadius s) - vx p)
                                          * rnd 0.05))) (vy p) (vz p);
          p = Vector3 (vx p) (vy p)
                (rnd (vz p + rnd (rnd (rnd (Math_cos angle * targetRadius s) - vz p)
                                    * rnd 0.05)));
          p = Vector3 (vx p) (rnd (vy p + rnd (rnd (mouseY s - vy p) * rnd 0.05))) (vz p)
      in s\<lparr>cameraPosition := p\<rparr>)"

definition desired64 :: "(real \<Rightarrow> real) \<Rightarrow> (real \<Rightarrow> real) \<Rightarrow> real \<Rightarrow> state \<Rightarrow> Vector3" where
  "desired64 Math_sin Math_cos time s =
     (let angle = rnd (rnd (time * rnd 0.1) + rnd (mouseX s * rnd 0.01))
      in Vector3 (rnd (Math_sin angle * targetRadius s)) (mouseY s)
                 (rnd (Math_cos angle * targetRadius s)))"

definition doubleVector :: "real \<Rightarrow> Vector3 \<Rightarrow> bool" where
  "doubleVector bound v \<longleftrightarrow>
     doubleWithin bound (vx v) \<and> doubleWithin bound (vy v) \<and> doubleWithin bound (vz v)"

section \<open>Rounding to double precision\<close>

lemma roundTiesToEven_of_int [simp]: "roundTiesToEven (of_int n) = n"
  by (simp add: roundTiesToEven_def)

lemma roundTiesToEven_0 [simp]: "roundTiesToEven 0 = 0"
  using roundTiesToEven_of_int [of 0] by simp

lemma roundTiesToEven_bounds:
  "\<lfloor>y\<rfloor> \<le> roundTiesToEven y" "roundTiesToEven y \<le> \<lfloor>y\<rfloor> + 1"
  by (simp_all add: roundTiesToEven_def Let_def)

lemma roundTiesToEven_mono:
  assumes "x \<le> y"
  shows "roundTiesToEven x \<le> roundTiesToEven y"
proof (cases "\<lfloor>x\<rfloor> = \<lfloor>y\<rfloor>")
  case True
  with assms show ?thesis
    by (auto simp: roundTiesToEven_def Let_def)
next
  case False
  with assms have "\<lfloor>x\<rfloor> + 1 \<le> \<lfloor>y\<rfloor>"
    using floor_mono [OF assms] by linarith
  with roundTiesToEven_bounds(2) [of x] roundTiesToEven_bounds(1) [of y]
  show ?thesis by linarith
qed

lemma roundTiesToEven_ge:
  assumes "of_int n \<le> y"
  shows "(of_int n :: real) \<le> of_int (roundTiesToEven y)"
proof -
  from assms have "roundTiesToEven (of_int n) \<le> roundTiesToEven y"
    by (rule roundTiesToEven_mono)
  then show ?thesis by simp
qed

lemma roundTiesToEven_le:
  assumes "y \<le> of_int n"
  shows "(of_int (roundTiesToEven y) :: real) \<le> of_int n"
proof -
  from assms have "roundTiesToEven y \<le> roundTiesToEven (of_int n)"
    by (rule roundTiesToEven_mono)
  then show ?thesis by simp
qed

lemma roundTiesToEven_near:
  assumes "\<bar>y - of_int n\<bar> < 1 / 2"
  shows "roundTiesToEven y = n"
proof (cases "of_int n \<le> y")
  case True
  with assms have "\<lfloor>y\<rfloor> = n" by (intro floor_unique) (auto simp: abs_if split: if_splits)
  with assms True show ?thesis by (simp add: roundTiesToEven_def Let_def)
next
  case False
  with assms have f: "\<lfloor>y\<rfloor> = n - 1" by (intro floor_unique) (auto simp: abs_if split: if_splits)
  from False assms have "1 / 2 < y - of_int (n - 1)" by (auto simp: abs_if split: if_splits)
  with f show ?thesis by (simp add: roundTiesToEven_def Let_def)
qed

lemma roundTiesToEven_minus: "roundTiesToEven (- y) = - roundTiesToEven y"
proof (cases "y = of_int \<lfloor>y\<rfloor>")
  case True
  then obtain n where "y = of_int n" ..
  then have "- y = of_int (- n)" by simp
  with \<open>y = of_int n\<close> show ?thesis by (simp only: roundTiesToEven_of_int)
next
  case False
  then have lt: "of_int \<lfloor>y\<rfloor> < y" using of_int_floor_le [of y] by linarith
  have "\<lfloor>- y\<rfloor> = - \<lfloor>y\<rfloor> - 1"
  proof (rule floor_unique)
    have "y \<le> of_int \<lfloor>y\<rfloor> + 1"
      using real_of_int_floor_add_one_gt [of y] by linarith
    then show "of_int (- \<lfloor>y\<rfloor> - 1) \<le> - y"
      unfolding of_int_diff of_int_minus of_int_1 by linarith
    show "- y < of_int (- \<lfloor>y\<rfloor> - 1) + 1" using lt by simp
  qed
  with lt show ?thesis
    by (auto simp: roundTiesToEven_def Let_def)
qed


lemma ulpExponent_ge: "- 1074 \<le> ulpExponent x"
  by (simp add: ulpExponent_def)

lemma ulpExponent_minus [simp]: "ulpExponent (- x) = ulpExponent x"
  by (simp add: ulpExponent_def)

lemma ulpExponent_mono:
  assumes "0 < x" and "x \<le> y"
  shows "ulpExponent x \<le> ulpExponent y"
proof -
  from assms have "log 2 \<bar>x\<bar> \<le> log 2 \<bar>y\<bar>" by simp
  then have "\<lfloor>log 2 \<bar>x\<bar>\<rfloor> \<le> \<lfloor>log 2 \<bar>y\<bar>\<rfloor>" by (rule floor_mono)
  then show ?thesis by (simp add: ulpExponent_def)
qed

lemma pow2_add: "2 powr of_int (a + b) = 2 powr of_int a * (2 powr of_int b :: real)"
  by (simp add: powr_add)

lemma pow2_nat: "0 \<le> e \<Longrightarrow> 2 powr of_int e = (2 :: real) ^ nat e"
  by (simp add: powr_int)

lemma pow2_mono: "a \<le> b \<Longrightarrow> 2 powr of_int a \<le> (2 powr of_int b :: real)"
  by simp

lemma scaled_upper:
  assumes "x \<noteq> 0"
  shows "\<bar>x\<bar> / 2 powr of_int (ulpExponent x) < 2 ^ 53"
proof -
  define k where "k = \<lfloor>log 2 \<bar>x\<bar>\<rfloor>"
  from assms have "\<bar>x\<bar> < 2 powr (of_int k + 1)"
    using floor_log_eq_powr_iff [of "\<bar>x\<bar>" 2 k] by (simp add: k_def)
  also have "of_int k + 1 = (of_int (k - 52 + 53) :: real)" by simp
  also have "2 powr of_int (k - 52 + 53) = 2 powr of_int (k - 52) * (2 powr of_int 53 :: real)"
    by (rule pow2_add)
  also have "(2 powr of_int 53 :: real) = 2 ^ 53" by (simp add: pow2_nat)
  finally have "\<bar>x\<bar> < 2 powr of_int (k - 52) * 2 ^ 53" .
  moreover have "2 powr of_int (k - 52) \<le> (2 powr of_int (ulpExponent x) :: real)"
    by (rule pow2_mono) (simp add: ulpExponent_def k_def)
  then have "2 powr of_int (k - 52) * 2 ^ 53 \<le> (2 powr of_int (ulpExponent x) * 2 ^ 53 :: real)"
    by (intro mult_right_mono) simp_all
  ultimately have "\<bar>x\<bar> < 2 powr of_int (ulpExponent x) * 2 ^ 53"
    by (rule less_le_trans)
  then show ?thesis by (simp add: field_simps)
qed

lemma scaled_lower:
  assumes "x \<noteq> 0" and "- 1074 < ulpExponent x"
  shows "2 ^ 52 \<le> \<bar>x\<bar> / 2 powr of_int (ulpExponent x)"
proof -
  define k where "k = \<lfloor>log 2 \<bar>x\<bar>\<rfloor>"
  from assms(2) have e: "ulpExponent x = k - 52"
    by (simp add: ulpExponent_def k_def max_def split: if_splits)
  from assms(1) have "2 powr of_int k \<le> \<bar>x\<bar>"
    using floor_log_eq_powr_iff [of "\<bar>x\<bar>" 2 k] by (simp add: k_def)
  moreover have "2 powr of_int (k - 52 + 52) = 2 powr of_int (k - 52) * (2 powr of_int 52 :: real)"
    by (rule pow2_add)
  then have "2 powr of_int k = 2 powr of_int (k - 52) * (2 ^ 52 :: real)"
    by (simp add: pow2_nat)
  ultimately have "2 powr of_int (k - 52) * 2 ^ 52 \<le> \<bar>x\<bar>" by (simp only:)
  then show ?thesis by (simp add: e field_simps)
qed

lemma rnd_0 [simp]: "rnd 0 = 0"
  by (simp add: rnd_def)

lemma rnd_minus: "rnd (- x) = - rnd x"
  by (simp add: rnd_def roundTiesToEven_minus)

lemma rnd_nonneg:
  assumes "0 \<le> x"
  shows "0 \<le> rnd x"
proof -
  from assms have "of_int 0 \<le> x / 2 powr of_int (ulpExponent x)" by simp
  then have "(of_int 0 :: real) \<le> of_int (roundTiesToEven (x / 2 powr of_int (ulpExponent x)))"
    by (rule roundTiesToEven_ge)
  then show ?thesis by (simp add: rnd_def)
qed

lemma rnd_pos_le:
  assumes "0 < x"
  shows "rnd x \<le> 2 ^ 53 * 2 powr of_int (ulpExponent x)"
proof -
  from assms scaled_upper [of x] have "x / 2 powr of_int (ulpExponent x) \<le> of_int (2 ^ 53)"
    by simp
  then have "(of_int (roundTiesToEven (x / 2 powr of_int (ulpExponent x))) :: real) \<le> of_int (2 ^ 53)"
    by (rule roundTiesToEven_le)
  with assms show ?thesis by (simp add: rnd_def)
qed

lemma rnd_pos_ge:
  assumes "0 < x" and "- 1074 < ulpExponent x"
  shows "2 ^ 52 * 2 powr of_int (ulpExponent x) \<le> rnd x"
proof -
  from assms scaled_lower [of x] have "of_int (2 ^ 52) \<le> x / 2 powr of_int (ulpExponent x)"
    by simp
  then have "(of_int (2 ^ 52) :: real) \<le> of_int (roundTiesToEven (x / 2 powr of_int (ulpExponent x)))"
    by (rule roundTiesToEven_ge)
  with assms show ?thesis by (simp add: rnd_def)
qed

lemma rnd_mono_pos:
  assumes "0 < x" and "x \<le> y"
  shows "rnd x \<le> rnd y"
proof (cases "ulpExponent x = ulpExponent y")
  case True
  from assms have "x / 2 powr of_int (ulpExponent y) \<le> y / 2 powr of_int (ulpExponent y)"
    by (simp add: divide_right_mono)
  then have "roundTiesToEven (x / 2 powr of_int (ulpExponent y))
               \<le> roundTiesToEven (y / 2 powr of_int (ulpExponent y))"
    by (rule roundTiesToEven_mono)
  with assms True show ?thesis by (simp add: rnd_def)
next
  case False
  with ulpExponent_mono [OF assms] have lt: "ulpExponent x + 1 \<le> ulpExponent y" by simp
  with ulpExponent_ge [of x] have sub: "- 1074 < ulpExponent y" by linarith
  have "rnd x \<le> 2 ^ 53 * 2 powr of_int (ulpExponent x)"
    by (rule rnd_pos_le [OF assms(1)])
  also have "\<dots> = 2 ^ 52 * 2 powr of_int (ulpExponent x + 1)"
    unfolding pow2_add by simp
  also have "\<dots> \<le> 2 ^ 52 * 2 powr of_int (ulpExponent y)"
    using pow2_mono [OF lt] by simp
  also have "\<dots> \<le> rnd y"
    using assms sub by (intro rnd_pos_ge) simp_all
  finally show ?thesis .
qed

lemma rnd_mono:
  assumes "x \<le> y"
  shows "rnd x \<le> rnd y"
proof -
  consider "0 < x" | "x \<le> 0" "0 \<le> y" | "y < 0" by linarith
  then show ?thesis
  proof cases
    case 1
    then show ?thesis using assms by (rule rnd_mono_pos)
  next
    case 2
    then have "rnd x \<le> 0" using rnd_nonneg [of "- x"] by (simp add: rnd_minus)
    moreover from 2 have "0 \<le> rnd y" by (intro rnd_nonneg)
    ultimately show ?thesis by simp
  next
    case 3
    with assms have "0 < - y" "- y \<le> - x" by simp_all
    then have "rnd (- y) \<le> rnd (- x)" by (rule rnd_mono_pos)
    then show ?thesis by (simp add: rnd_minus)
  qed
qed


lemma pow2_pos [simp]: "0 < (2 powr of_int e :: real)"
  by simp

lemma pow2_diff: "2 powr of_int a / 2 powr of_int b = (2 powr of_int (a - b) :: real)"
  by (simp add: powr_diff)

lemma pow2_53: "2 ^ 53 * 2 powr of_int e = (2 powr of_int (e + 53) :: real)"
proof -
  have "2 powr of_int (e + 53) = 2 powr of_int e * (2 powr of_int 53 :: real)"
    by (rule pow2_add)
  moreover have "(2 powr of_int 53 :: real) = 2 ^ 53" by (simp add: pow2_nat)
  ultimately show ?thesis by (simp only: mult.commute)
qed

lemma ulpExponent_le:
  assumes "x \<noteq> 0" and "\<bar>x\<bar> < 2 powr of_int (e + 53)" and "- 1074 \<le> e"
  shows "ulpExponent x \<le> e"
proof -
  from assms(1,2) have "log 2 \<bar>x\<bar> < of_int (e + 53)"
    by (simp add: less_powr_iff)
  then have "\<lfloor>log 2 \<bar>x\<bar>\<rfloor> < e + 53" by (simp only: floor_less_iff)
  with assms(3) show ?thesis by (simp add: ulpExponent_def)
qed

lemma rnd_repr_lt:
  assumes "- 1074 \<le> e" and "\<bar>m\<bar> < 2 ^ 53"
  shows "rnd (of_int m * 2 powr of_int e) = of_int m * 2 powr of_int e"
proof (cases "m = 0")
  case True
  then show ?thesis by simp
next
  case False
  define x :: real where "x = of_int m * 2 powr of_int e"
  define e' where "e' = ulpExponent x"
  from False have x0: "x \<noteq> 0" by (simp add: x_def)
  from assms(2) have "(of_int \<bar>m\<bar> :: real) < of_int (2 ^ 53)"
    by (simp only: of_int_less_iff)
  then have "\<bar>x\<bar> < 2 ^ 53 * 2 powr of_int e"
    by (simp add: x_def abs_mult)
  also have "\<dots> = 2 powr of_int (e + 53)"
    by (rule pow2_53)
  finally have "e' \<le> e"
    unfolding e'_def using x0 assms(1) by (intro ulpExponent_le)
  then have n: "2 powr of_int (e - e') = (2 :: real) ^ nat (e - e')"
    by (intro pow2_nat) simp
  have "x / 2 powr of_int e' = of_int m * (2 powr of_int e / 2 powr of_int e')"
    by (simp add: x_def)
  also have "\<dots> = of_int (m * 2 ^ nat (e - e'))"
    unfolding pow2_diff n by simp
  finally have "roundTiesToEven (x / 2 powr of_int e') = m * 2 ^ nat (e - e')"
    by (simp only: roundTiesToEven_of_int)
  then have "rnd x = of_int (m * 2 ^ nat (e - e')) * 2 powr of_int e'"
    using x0 by (simp add: rnd_def e'_def)
  also have "\<dots> = of_int m * (2 powr of_int (e - e') * 2 powr of_int e')"
    unfolding n by simp
  also have "2 powr of_int (e - e') * 2 powr of_int e' = (2 powr of_int e :: real)"
    by (simp flip: powr_add)
  finally show ?thesis by (simp add: x_def)
qed

lemma rnd_repr:
  assumes "- 1074 \<le> e" and "\<bar>m\<bar> \<le> 2 ^ 53"
  shows "rnd (of_int m * 2 powr of_int e) = of_int m * 2 powr of_int e"
proof (cases "\<bar>m\<bar> < 2 ^ 53")
  case True
  with assms(1) show ?thesis by (rule rnd_repr_lt)
next
  case False
  with assms(2) have "\<bar>m\<bar> = 2 ^ 53" by simp
  then consider "m = 2 ^ 53" | "m = - (2 ^ 53)" by (auto simp: abs_if split: if_splits)
  then have "m = 2 * (m div 2)" and half: "\<bar>m div 2\<bar> < 2 ^ 53"
    by (cases; simp)+
  then have "(of_int m :: real) = of_int (m div 2) * 2"
    by (metis mult.commute of_int_mult of_int_numeral)
  moreover have p: "(2 powr of_int (e + 1) :: real) = 2 * 2 powr of_int e"
    using pow2_add [of e 1] by simp
  ultimately have "of_int m * 2 powr of_int e = of_int (m div 2) * (2 powr of_int (e + 1) :: real)"
    unfolding p by simp
  moreover have "rnd (of_int (m div 2) * 2 powr of_int (e + 1))
      = of_int (m div 2) * 2 powr of_int (e + 1)"
    using assms(1) half by (intro rnd_repr_lt) simp_all
  ultimately show ?thesis by (simp only:)
qed

lemma rnd_mantissa:
  assumes "x \<noteq> 0"
  shows "\<bar>roundTiesToEven (x / 2 powr of_int (ulpExponent x))\<bar> \<le> 2 ^ 53"
proof -
  define y where "y = x / 2 powr of_int (ulpExponent x)"
  from scaled_upper [OF assms] have "\<bar>y\<bar> < 2 ^ 53"
    by (simp add: y_def)
  then have "of_int (- (2 ^ 53)) \<le> y" "y \<le> of_int (2 ^ 53)" by simp_all
  then have "(of_int (- (2 ^ 53)) :: real) \<le> of_int (roundTiesToEven y)"
    and "(of_int (roundTiesToEven y) :: real) \<le> of_int (2 ^ 53)"
    by (simp_all only: roundTiesToEven_ge roundTiesToEven_le)
  then have "- (2 ^ 53) \<le> roundTiesToEven y" "roundTiesToEven y \<le> 2 ^ 53"
    by (simp_all only: of_int_le_iff)
  then show ?thesis unfolding y_def by simp
qed

lemma rnd_idem [simp]: "rnd (rnd x) = rnd x"
proof (cases "x = 0")
  case True
  then show ?thesis by simp
next
  case False
  then have "rnd x = of_int (roundTiesToEven (x / 2 powr of_int (ulpExponent x)))
      * 2 powr of_int (ulpExponent x)"
    by (simp add: rnd_def)
  moreover have "rnd (of_int (roundTiesToEven (x / 2 powr of_int (ulpExponent x)))
      * 2 powr of_int (ulpExponent x))
    = of_int (roundTiesToEven (x / 2 powr of_int (ulpExponent x)))
      * 2 powr of_int (ulpExponent x)"
    using ulpExponent_ge rnd_mantissa [OF False] by (rule rnd_repr)
  ultimately show ?thesis by (simp only:)
qed

lemma rnd_grid: "\<exists>j. rnd x = of_int j * 2 powr (- 1074)"
proof (cases "x = 0")
  case True
  then have "rnd x = of_int 0 * 2 powr (- 1074)" by simp
  then show ?thesis ..
next
  case False
  define e where "e = ulpExponent x"
  have "2 powr of_int e = 2 powr of_int (e + 1074) * (2 powr of_int (- 1074) :: real)"
    by (simp flip: powr_add)
  also have "2 powr of_int (e + 1074) = (2 :: real) ^ nat (e + 1074)"
    using ulpExponent_ge [of x] by (intro pow2_nat) (simp add: e_def)
  finally have "rnd x = of_int (roundTiesToEven (x / 2 powr of_int e) * 2 ^ nat (e + 1074))
      * 2 powr (- 1074)"
    using False by (simp add: rnd_def e_def)
  then show ?thesis ..
qed

lemma rnd_of_int:
  assumes "\<bar>n\<bar> \<le> 2 ^ 53"
  shows "rnd (of_int n) = of_int n"
  using rnd_repr [of 0 n] assms by simp

lemma rnd_numeral [simp]:
  "numeral k \<le> (2 ^ 53 :: int) \<Longrightarrow> rnd (numeral k) = numeral k"
  using rnd_of_int [of "numeral k"] by simp

lemma rnd_neg_numeral [simp]:
  "numeral k \<le> (2 ^ 53 :: int) \<Longrightarrow> rnd (- numeral k) = - numeral k"
  using rnd_of_int [of "- numeral k"] by simp

lemma rnd_1 [simp]: "rnd 1 = 1"
  using rnd_of_int [of 1] by simp

lemma rnd_neg_1 [simp]: "rnd (- 1) = - 1"
  using rnd_of_int [of "- 1"] by simp

lemma rnd_pow2:
  assumes "- 1074 \<le> e"
  shows "rnd (2 powr of_int e) = 2 powr of_int e"
  using rnd_repr [OF assms, of 1] by simp

lemma ulpExponent_binade:
  assumes "2 powr of_int k \<le> \<bar>x\<bar>" and "\<bar>x\<bar> < 2 powr of_int (k + 1)" and "- 1022 \<le> k"
  shows "ulpExponent x = k - 52"
proof -
  from assms(1) have "0 < \<bar>x\<bar>" using pow2_pos [of k] by linarith
  with assms(1,2) have "\<lfloor>log 2 \<bar>x\<bar>\<rfloor> = k"
    by (subst floor_log_eq_powr_iff) simp_all
  with assms(3) show ?thesis by (simp add: ulpExponent_def)
qed

lemma rnd_eval:
  assumes "j \<le> 52" and "2 ^ j \<le> \<bar>x\<bar>" and "\<bar>x\<bar> < 2 ^ (j + 1)"
  shows "rnd x = of_int (roundTiesToEven (x * 2 ^ (52 - j))) / 2 ^ (52 - j)"
proof -
  have lo: "2 powr of_int (int j) = (2 :: real) ^ j"
    by (simp add: powr_realpow)
  have hi: "2 powr of_int (int j + 1) = (2 :: real) ^ (j + 1)"
    using powr_realpow [of 2 "j + 1"] by (simp add: add.commute)
  have "of_int (int j - 52) = - real (52 - j)" using assms(1) by simp
  then have u: "2 powr of_int (int j - 52) = 1 / (2 :: real) ^ (52 - j)"
    by (simp only: powr_minus powr_realpow zero_less_numeral inverse_eq_divide)
  have e: "ulpExponent x = int j - 52"
  proof (rule ulpExponent_binade)
    show "2 powr of_int (int j) \<le> \<bar>x\<bar>" using assms(2) by (simp only: lo)
    show "\<bar>x\<bar> < 2 powr of_int (int j + 1)" using assms(3) by (simp only: hi)
    show "- 1022 \<le> int j" by simp
  qed
  have "0 < (2 :: real) ^ j" by simp
  with assms(2) have "x \<noteq> 0" by linarith
  then have "rnd x = of_int (roundTiesToEven (x / 2 powr of_int (int j - 52)))
      * 2 powr of_int (int j - 52)"
    by (simp only: rnd_def e if_False)
  then show ?thesis unfolding u by simp
qed

lemma rnd_sqrt_eval:
  assumes "j \<le> 52" and "2 ^ j * 2 ^ j \<le> x" and "x < 2 ^ (j + 1) * 2 ^ (j + 1)"
    and "0 \<le> lo" and "lo * lo < x" and "x < hi * hi" and "0 \<le> hi"
    and "of_int n - 1 / 2 \<le> lo * 2 ^ (52 - j)" and "hi * 2 ^ (52 - j) \<le> of_int n + 1 / 2"
  shows "rnd (sqrt x) = of_int n / 2 ^ (52 - j)"
proof -
  have x0: "0 \<le> x" using assms(2) by (smt (verit) zero_le_mult_iff zero_le_power)
  have b1: "2 ^ j \<le> \<bar>sqrt x\<bar>"
    using assms(2) x0 by (simp add: real_le_rsqrt power2_eq_square)
  have b2: "\<bar>sqrt x\<bar> < 2 ^ (j + 1)"
    using assms(3) x0 by (simp add: real_less_lsqrt power2_eq_square)
  have "lo < sqrt x" using assms(5) by (simp add: real_less_rsqrt power2_eq_square)
  moreover have "sqrt x < hi" using assms(6,7) by (simp add: real_less_lsqrt power2_eq_square)
  ultimately have "lo * 2 ^ (52 - j) < sqrt x * 2 ^ (52 - j)"
    and "sqrt x * 2 ^ (52 - j) < hi * 2 ^ (52 - j)" by simp_all
  with assms(8,9) have "\<bar>sqrt x * 2 ^ (52 - j) - of_int n\<bar> < 1 / 2" by linarith
  then have "roundTiesToEven (sqrt x * 2 ^ (52 - j)) = n" by (rule roundTiesToEven_near)
  with rnd_eval [OF assms(1) b1 b2] show ?thesis by simp
qed

lemma rnd_fraction:
  assumes "\<bar>m\<bar> \<le> 2 ^ 53" and "n \<le> 1074"
  shows "rnd (of_int m / 2 ^ n) = of_int m / 2 ^ n"
proof -
  have "2 powr of_int (- int n) = 1 / (2 :: real) ^ n"
    by (simp add: powr_minus powr_realpow inverse_eq_divide)
  with rnd_repr [of "- int n" m] assms show ?thesis by simp
qed

section \<open>The scan, characterised\<close>

lemma innerScan_eq:
  "connections \<le> 5 \<Longrightarrow>
   innerScan push cfg ps i p1 j connections out =
     out @ concat (map (\<lambda>j. push i p1 j (vectorAt ps j))
       (take (6 - connections)
          (filter (\<lambda>j. distanceTo p1 (vectorAt ps j) < connectionDistance cfg)
             [j ..< neuronCount cfg])))"
proof (induction push cfg ps i p1 j connections out rule: innerScan.induct)
  case (1 push cfg ps i p1 j connections out)
  show ?case
  proof (cases "j < neuronCount cfg")
    case False
    then show ?thesis by (simp add: innerScan.simps)
  next
    case inside: True
    then have upt: "[j ..< neuronCount cfg] = j # [j + 1 ..< neuronCount cfg]"
      by (simp add: upt_conv_Cons)
    show ?thesis
    proof (cases "distanceTo p1 (vectorAt ps j) < connectionDistance cfg")
      case False
      with inside "1.IH"(2) "1.prems" upt show ?thesis
        by (subst innerScan.simps) simp
    next
      case close: True
      show ?thesis
      proof (cases "connections = 5")
        case True
        with inside close upt show ?thesis
          by (subst innerScan.simps) simp
      next
        case False
        with "1.prems" have less: "connections + 1 \<le> 5" by simp
        then have tk: "6 - connections = Suc (6 - (connections + 1))" by simp
        from less have nb: "\<not> connections + 1 > 5" by simp
        have "innerScan push cfg ps i p1 j connections out =
                innerScan push cfg ps i p1 (j + 1) (connections + 1)
                  (out @ push i p1 j (vectorAt ps j))"
          using inside close nb by (subst innerScan.simps) (simp add: Let_def)
        also have "\<dots> = (out @ push i p1 j (vectorAt ps j)) @
            concat (map (\<lambda>j. push i p1 j (vectorAt ps j))
              (take (6 - (connections + 1))
                 (filter (\<lambda>j. distanceTo p1 (vectorAt ps j) < connectionDistance cfg)
                    [j + 1 ..< neuronCount cfg])))"
          using "1.IH"(1) [OF inside refl refl close refl refl nb less] .
        finally show ?thesis
          using close by (simp only: upt tk filter.simps if_True take_Suc_Cons
              list.map concat.simps append_assoc)
      qed
    qed
  qed
qed

lemma near_fun:
  "near cfg ps i = (\<lambda>j. distanceTo (vectorAt ps i) (vectorAt ps j) < connectionDistance cfg)"
  by (rule ext) (simp add: near_def)

lemma outerScan_eq:
  "outerScan push cfg ps i out =
     out @ concat (map (\<lambda>i. concat (map (\<lambda>j. push i (vectorAt ps i) j (vectorAt ps j))
                                   (neighbours cfg ps i)))
                    [i ..< neuronCount cfg])"
proof (induction push cfg ps i out rule: outerScan.induct)
  case (1 push cfg ps i out)
  show ?case
  proof (cases "i < neuronCount cfg")
    case False
    then show ?thesis by (simp add: outerScan.simps)
  next
    case True
    then have upt: "[i ..< neuronCount cfg] = i # [i + 1 ..< neuronCount cfg]"
      by (simp add: upt_conv_Cons)
    have inner: "innerScan push cfg ps i (vectorAt ps i) (i + 1) 0 out =
        out @ concat (map (\<lambda>j. push i (vectorAt ps i) j (vectorAt ps j)) (neighbours cfg ps i))"
      by (simp add: innerScan_eq neighbours_def near_fun)
    have "outerScan push cfg ps i out =
            outerScan push cfg ps (i + 1) (innerScan push cfg ps i (vectorAt ps i) (i + 1) 0 out)"
      using True by (subst outerScan.simps) (simp add: Let_def)
    also have "\<dots> = innerScan push cfg ps i (vectorAt ps i) (i + 1) 0 out @
        concat (map (\<lambda>i. concat (map (\<lambda>j. push i (vectorAt ps i) j (vectorAt ps j))
                                      (neighbours cfg ps i)))
                       [i + 1 ..< neuronCount cfg])"
      using "1.IH" [OF True refl refl] .
    finally show ?thesis
      by (simp only: inner upt list.map concat.simps append_assoc)
  qed
qed

lemma concat_singletons: "concat (map (\<lambda>x. [f x]) xs) = map f xs"
  by (induction xs) simp_all

lemma connectionPairs_scanOrder: "connectionPairs cfg ps = scanOrder cfg ps"
  by (simp add: connectionPairs_def scanOrder_def outerScan_eq pushPair_def concat_singletons)

lemma concat_map_concat:
  "concat (map f (concat (map g xs))) = concat (map (\<lambda>x. concat (map f (g x))) xs)"
  by (induction xs) simp_all

lemma generateSynapses_scanOrder:
  "generateSynapses cfg ps = concat (map (lineOf ps) (scanOrder cfg ps))"
  by (simp add: generateSynapses_def scanOrder_def outerScan_eq pushLine_def lineOf_def
      concat_map_concat o_def)

lemma generateSynapses_connectionPairs:
  "generateSynapses cfg ps = concat (map (lineOf ps) (connectionPairs cfg ps))"
  by (simp add: generateSynapses_scanOrder connectionPairs_scanOrder)

lemma scanOrder_mem:
  "(i, j) \<in> set (scanOrder cfg ps) \<longleftrightarrow> i < neuronCount cfg \<and> j \<in> set (neighbours cfg ps i)"
  by (auto simp: scanOrder_def)

lemma neighbours_mem:
  "j \<in> set (neighbours cfg ps i) \<Longrightarrow> i < j \<and> j < neuronCount cfg \<and> near cfg ps i j"
  unfolding neighbours_def by (auto dest!: in_set_takeD)

lemma neighbours_length: "length (neighbours cfg ps i) \<le> 6"
  by (simp add: neighbours_def)

lemma neighbours_sorted: "sorted_wrt (<) (neighbours cfg ps i)"
  unfolding neighbours_def
  by (intro sorted_wrt_take sorted_wrt_filter) simp

lemma lineOf_length: "length (lineOf ps e) = 6"
  by (simp add: lineOf_def)

lemma concat_blocks_length:
  "(\<And>x. length (f x) = m) \<Longrightarrow> length (concat (map f xs)) = m * length xs"
  by (induction xs) simp_all

lemma concat_blocks_nth:
  "(\<And>x. length (f x) = m) \<Longrightarrow> k < length xs \<Longrightarrow> r < m \<Longrightarrow>
   concat (map f xs) ! (m * k + r) = f (xs ! k) ! r"
proof (induction xs arbitrary: k)
  case Nil
  then show ?case by simp
next
  case (Cons x xs)
  show ?case
  proof (cases k)
    case 0
    with Cons.prems show ?thesis by (simp add: nth_append)
  next
    case (Suc k')
    with Cons.prems have "k' < length xs" by simp
    from Cons.IH [OF Cons.prems(1) this Cons.prems(3)]
    show ?thesis using Suc Cons.prems(1) by (simp add: nth_append add.assoc)
  qed
qed

lemma generateSynapses_length:
  "length (generateSynapses cfg ps) = 6 * length (connectionPairs cfg ps)"
  by (simp add: generateSynapses_connectionPairs concat_blocks_length [OF lineOf_length])

lemma generateSynapses_nth:
  assumes "k < length (connectionPairs cfg ps)" and "r < 6"
  shows "generateSynapses cfg ps ! (6 * k + r) = lineOf ps (connectionPairs cfg ps ! k) ! r"
  unfolding generateSynapses_connectionPairs
  by (rule concat_blocks_nth [OF lineOf_length assms])

lemma generateSynapses_endpoints:
  assumes "k < length (connectionPairs cfg ps)"
  shows "vectorAt (generateSynapses cfg ps) (2 * k) = vectorAt ps (fst (connectionPairs cfg ps ! k))"
    and "vectorAt (generateSynapses cfg ps) (2 * k + 1) = vectorAt ps (snd (connectionPairs cfg ps ! k))"
proof -
  have ix: "2 * k * 3 = 6 * k + 0" "2 * k * 3 + 1 = 6 * k + 1" "2 * k * 3 + 2 = 6 * k + 2"
    "(2 * k + 1) * 3 = 6 * k + 3" "(2 * k + 1) * 3 + 1 = 6 * k + 4" "(2 * k + 1) * 3 + 2 = 6 * k + 5"
    by simp_all
  note n = generateSynapses_nth [OF assms]
  show "vectorAt (generateSynapses cfg ps) (2 * k) = vectorAt ps (fst (connectionPairs cfg ps ! k))"
    unfolding vectorAt_def [of "generateSynapses cfg ps"] ix
    using n [of 0] n [of 1] n [of 2] by (simp add: lineOf_def)
  show "vectorAt (generateSynapses cfg ps) (2 * k + 1) = vectorAt ps (snd (connectionPairs cfg ps ! k))"
  proof -
    have "generateSynapses cfg ps ! (6 * k + 3) = vx (vectorAt ps (snd (connectionPairs cfg ps ! k)))"
      and "generateSynapses cfg ps ! (6 * k + 4) = vy (vectorAt ps (snd (connectionPairs cfg ps ! k)))"
      and "generateSynapses cfg ps ! (6 * k + 5) = vz (vectorAt ps (snd (connectionPairs cfg ps ! k)))"
      using n [of 3] n [of 4] n [of 5] by (simp_all add: lineOf_def)
    moreover have "vectorAt (generateSynapses cfg ps) (2 * k + 1) =
        Vector3 (generateSynapses cfg ps ! (6 * k + 3)) (generateSynapses cfg ps ! (6 * k + 4))
          (generateSynapses cfg ps ! (6 * k + 5))"
      by (simp add: vectorAt_def add.commute mult.commute)
    ultimately show ?thesis
      by (simp only: Vector3.collapse)
  qed
qed

lemma connectionPairs_mem:
  "(i, j) \<in> set (connectionPairs cfg ps) \<Longrightarrow> i < j \<and> j < neuronCount cfg \<and> near cfg ps i j"
  using neighbours_mem [of j cfg ps i]
  by (simp add: connectionPairs_scanOrder scanOrder_mem)

lemma distinct_tagged:
  "distinct xs \<Longrightarrow> (\<And>x. distinct (f x)) \<Longrightarrow>
   distinct (concat (map (\<lambda>x. map (Pair x) (f x)) xs))"
  by (induction xs) (auto simp: distinct_map inj_on_def)

lemma scanOrder_distinct: "distinct (scanOrder cfg ps)"
  unfolding scanOrder_def
  by (rule distinct_tagged) (simp_all add: neighbours_def)

lemma count_tagged:
  "distinct xs \<Longrightarrow>
   length (filter (\<lambda>e. fst e = i) (concat (map (\<lambda>x. map (Pair x) (f x)) xs))) =
     (if i \<in> set xs then length (f i) else 0)"
  by (induction xs) (auto simp: filter_map o_def filter_empty_conv)

lemma scanOrder_count:
  "length (filter (\<lambda>e. fst e = i) (scanOrder cfg ps)) =
     (if i < neuronCount cfg then length (neighbours cfg ps i) else 0)"
  unfolding scanOrder_def by (simp add: count_tagged)

lemma sorted_tagged:
  fixes xs :: "nat list" and f :: "nat \<Rightarrow> nat list"
  shows "sorted_wrt (<) xs \<Longrightarrow> (\<And>x. sorted_wrt (<) (f x)) \<Longrightarrow>
   sorted_wrt (\<lambda>a b. fst a < fst b \<or> fst a = fst b \<and> snd a < snd b)
     (concat (map (\<lambda>x. map (Pair x) (f x)) xs))"
  by (induction xs) (auto simp: sorted_wrt_append sorted_wrt_map)

lemma scanOrder_sorted:
  "sorted_wrt (\<lambda>a b. fst a < fst b \<or> fst a = fst b \<and> snd a < snd b) (scanOrder cfg ps)"
  unfolding scanOrder_def
  by (rule sorted_tagged) (simp_all add: neighbours_sorted)

lemma distanceTo_lessI:
  assumes "distanceToSquared a b \<le> D * D" and "0 \<le> D" and "rnd D = D" and "D < d"
  shows "distanceTo a b < d"
proof -
  from assms(1) have "sqrt (distanceToSquared a b) \<le> sqrt (D * D)"
    by (rule real_sqrt_le_mono)
  with assms(2) have "sqrt (distanceToSquared a b) \<le> D" by simp
  then have "rnd (sqrt (distanceToSquared a b)) \<le> rnd D" by (rule rnd_mono)
  with assms(3,4) show ?thesis by (simp add: distanceTo_def)
qed

lemma distanceTo_not_lessI:
  assumes "d * d \<le> distanceToSquared a b" and "0 \<le> d" and "rnd d = d"
  shows "\<not> distanceTo a b < d"
proof -
  from assms(1) have "sqrt (d * d) \<le> sqrt (distanceToSquared a b)"
    by (rule real_sqrt_le_mono)
  with assms(2) have "d \<le> sqrt (distanceToSquared a b)" by simp
  then have "rnd d \<le> rnd (sqrt (distanceToSquared a b))" by (rule rnd_mono)
  with assms(3) show ?thesis by (simp add: distanceTo_def)
qed

lemma distanceTo_15:
  "distanceToSquared a b \<le> 196 \<Longrightarrow> distanceTo a b < 15 \<longleftrightarrow> True"
  "225 \<le> distanceToSquared a b \<Longrightarrow> distanceTo a b < 15 \<longleftrightarrow> False"
  using distanceTo_lessI [of a b 14 15] distanceTo_not_lessI [of 15 a b] by simp_all

lemmas scan_eval =
  outerScan.simps innerScan.simps distanceTo_15 distanceToSquared_def
  vectorAt_def pushLine_def pushPair_def

text \<open>
  The bound of six is reached: with eight coincident points, point \<open>0\<close> is joined
  to the points \<open>1\<close> to \<open>6\<close> and the scan for it stops before point \<open>7\<close>.
\<close>

lemma six_connections_reached:
  "connectionPairs \<lparr>neuronCount = 8, connectionDistance = 15\<rparr> (replicate 24 0) =
     [(0, 1), (0, 2), (0, 3), (0, 4), (0, 5), (0, 6),
      (1, 2), (1, 3), (1, 4), (1, 5), (1, 6), (1, 7),
      (2, 3), (2, 4), (2, 5), (2, 6), (2, 7),
      (3, 4), (3, 5), (3, 6), (3, 7),
      (4, 5), (4, 6), (4, 7),
      (5, 6), (5, 7),
      (6, 7)]"
  by (simp add: connectionPairs_def scan_eval)

text \<open>
  A pair of points whose exact distance is above 15 and whose computed distance is
  the double just below 15: the squares and the two sums are rounded down by more
  than the exact sum exceeds 225.
\<close>

lemma v9_distance:
  fixes X Y Z :: real
  defines "X \<equiv> 6105312898908172 / 2 ^ 49"
    and "Y \<equiv> 5099548398022050 / 2 ^ 49"
    and "Z \<equiv> 5665723892140930 / 2 ^ 50"
  shows "distanceToSquared (Vector3 0 0 0) (Vector3 X Y Z) = 7916483719987199 / 2 ^ 45"
    and "distanceTo (Vector3 0 0 0) (Vector3 X Y Z) = 8444249301319679 / 2 ^ 49"
    and "225 < X\<^sup>2 + Y\<^sup>2 + Z\<^sup>2"
proof -
  have dx: "rnd (0 - X) = - X" unfolding X_def
    using rnd_fraction [of "- 6105312898908172" 49] by simp
  have dy: "rnd (0 - Y) = - Y" unfolding Y_def
    using rnd_fraction [of "- 5099548398022050" 49] by simp
  have dz: "rnd (0 - Z) = - Z" unfolding Z_def
    using rnd_fraction [of "- 5665723892140930" 50] by simp
  have "rnd (X * X) = of_int (roundTiesToEven (X * X * 2 ^ (52 - 6))) / 2 ^ (52 - 6)"
    by (rule rnd_eval) (simp_all add: X_def)
  also have "\<dots> = 8276678363466795 / 2 ^ 46"
    by (simp add: X_def roundTiesToEven_def)
  finally have a: "rnd (X * X) = 8276678363466795 / 2 ^ 46" .
  have "rnd (Y * Y) = of_int (roundTiesToEven (Y * Y * 2 ^ (52 - 6))) / 2 ^ (52 - 6)"
    by (rule rnd_eval) (simp_all add: Y_def)
  also have "\<dots> = 5774357406400478 / 2 ^ 46"
    by (simp add: Y_def roundTiesToEven_def)
  finally have b: "rnd (Y * Y) = 5774357406400478 / 2 ^ 46" .
  have "rnd (Z * Z) = of_int (roundTiesToEven (Z * Z * 2 ^ (52 - 4))) / 2 ^ (52 - 4)"
    by (rule rnd_eval) (simp_all add: Z_def)
  also have "\<dots> = 7127726680428507 / 2 ^ 48"
    by (simp add: Z_def roundTiesToEven_def)
  finally have c: "rnd (Z * Z) = 7127726680428507 / 2 ^ 48" .
  have "rnd (8276678363466795 / 2 ^ 46 + 5774357406400478 / 2 ^ 46)
      = of_int (roundTiesToEven ((8276678363466795 / 2 ^ 46 + 5774357406400478 / 2 ^ 46)
          * 2 ^ (52 - 7))) / 2 ^ (52 - 7)"
    by (rule rnd_eval) simp_all
  also have "\<dots> = 7025517884933636 / 2 ^ 45"
    by (simp add: roundTiesToEven_def)
  finally have s1: "rnd (8276678363466795 / 2 ^ 46 + 5774357406400478 / 2 ^ 46)
      = 7025517884933636 / 2 ^ 45" .
  have "rnd (7025517884933636 / 2 ^ 45 + 7127726680428507 / 2 ^ 48)
      = of_int (roundTiesToEven ((7025517884933636 / 2 ^ 45 + 7127726680428507 / 2 ^ 48)
          * 2 ^ (52 - 7))) / 2 ^ (52 - 7)"
    by (rule rnd_eval) simp_all
  also have "\<dots> = 7916483719987199 / 2 ^ 45"
    by (simp add: roundTiesToEven_def)
  finally have s2: "rnd (7025517884933636 / 2 ^ 45 + 7127726680428507 / 2 ^ 48)
      = 7916483719987199 / 2 ^ 45" .
  show sq: "distanceToSquared (Vector3 0 0 0) (Vector3 X Y Z) = 7916483719987199 / 2 ^ 45"
    unfolding distanceToSquared_def Let_def Vector3.sel dx dy dz
    by (simp only: minus_mult_minus a b c s1 s2)
  have "rnd (sqrt (7916483719987199 / 2 ^ 45)) = of_int 8444249301319679 / 2 ^ (52 - 3)"
    by (rule rnd_sqrt_eval [where lo = "16888498602639357 / 2 ^ 50"
          and hi = "16888498602639359 / 2 ^ 50"]) simp_all
  then show "distanceTo (Vector3 0 0 0) (Vector3 X Y Z) = 8444249301319679 / 2 ^ 49"
    unfolding distanceTo_def sq by simp
  show "225 < X\<^sup>2 + Y\<^sup>2 + Z\<^sup>2"
    by (simp add: X_def Y_def Z_def power2_eq_square)
qed


section \<open>The sampling loop, characterised\<close>

lemma neuronStep_eq:
  "neuronStep setHex draws (k, a) =
     (k + 5,
      a\<lparr>positions := positions a @
           [vx (sphericalPoint (40 * root 3 (draws k)) (draws (k + 1) * pi * 2)
                  (arccos (2 * draws (k + 2) - 1))),
            vy (sphericalPoint (40 * root 3 (draws k)) (draws (k + 1) * pi * 2)
                  (arccos (2 * draws (k + 2) - 1))) * 0.6,
            vz (sphericalPoint (40 * root 3 (draws k)) (draws (k + 1) * pi * 2)
                  (arccos (2 * draws (k + 2) - 1)))],
        colors := colors a @
           [fst (setHex (colorHex (draws (k + 3)))),
            fst (snd (setHex (colorHex (draws (k + 3))))),
            snd (snd (setHex (colorHex (draws (k + 3)))))],
        sizes := sizes a @ [draws (k + 4) * 2 + 1]\<rparr>)"
  by (simp add: neuronStep_def Math_random_def Let_def split_beta eval_nat_numeral)

lemma neuronLoop_eq:
  "neuronLoop setHex cfg draws i (5 * i, a) =
     (5 * max i (neuronCount cfg),
      a\<lparr>positions := positions a @ concat (map (positionOf draws) [i ..< neuronCount cfg]),
        colors := colors a @ concat (map (colorOf setHex draws) [i ..< neuronCount cfg]),
        sizes := sizes a @ map (\<lambda>i. draws (5 * i + 4) * 2 + 1) [i ..< neuronCount cfg]\<rparr>)"
proof (induction "neuronCount cfg - i" arbitrary: i a)
  case 0
  then show ?case by (simp add: neuronLoop.simps max_def)
next
  case (Suc d)
  then have lt: "i < neuronCount cfg" and d: "d = neuronCount cfg - (i + 1)" by simp_all
  have five: "5 * i + 5 = 5 * (i + 1)" by simp
  have "neuronLoop setHex cfg draws i (5 * i, a) =
          neuronLoop setHex cfg draws (i + 1) (neuronStep setHex draws (5 * i, a))"
    using lt by (subst neuronLoop.simps) simp
  also have "\<dots> = neuronLoop setHex cfg draws (i + 1) (5 * (i + 1),
      a\<lparr>positions := positions a @ positionOf draws i,
        colors := colors a @ colorOf setHex draws i,
        sizes := sizes a @ [draws (5 * i + 4) * 2 + 1]\<rparr>)"
    unfolding neuronStep_eq five
    by (simp add: positionOf_def colorOf_def neuronPoint_def)
  also have "\<dots> = (5 * max (i + 1) (neuronCount cfg),
      a\<lparr>positions := positions a @ positionOf draws i,
        colors := colors a @ colorOf setHex draws i,
        sizes := sizes a @ [draws (5 * i + 4) * 2 + 1]\<rparr>
       \<lparr>positions := positions (a\<lparr>positions := positions a @ positionOf draws i,
            colors := colors a @ colorOf setHex draws i,
            sizes := sizes a @ [draws (5 * i + 4) * 2 + 1]\<rparr>)
            @ concat (map (positionOf draws) [i + 1 ..< neuronCount cfg]),
        colors := colors (a\<lparr>positions := positions a @ positionOf draws i,
            colors := colors a @ colorOf setHex draws i,
            sizes := sizes a @ [draws (5 * i + 4) * 2 + 1]\<rparr>)
            @ concat (map (colorOf setHex draws) [i + 1 ..< neuronCount cfg]),
        sizes := sizes (a\<lparr>positions := positions a @ positionOf draws i,
            colors := colors a @ colorOf setHex draws i,
            sizes := sizes a @ [draws (5 * i + 4) * 2 + 1]\<rparr>)
            @ map (\<lambda>i. draws (5 * i + 4) * 2 + 1) [i + 1 ..< neuronCount cfg]\<rparr>)"
    by (rule Suc.hyps(1) [OF d])
  also have "\<dots> = (5 * max i (neuronCount cfg),
      a\<lparr>positions := positions a @ concat (map (positionOf draws) [i ..< neuronCount cfg]),
        colors := colors a @ concat (map (colorOf setHex draws) [i ..< neuronCount cfg]),
        sizes := sizes a @ map (\<lambda>i. draws (5 * i + 4) * 2 + 1) [i ..< neuronCount cfg]\<rparr>)"
    using lt by (simp add: upt_conv_Cons max_def)
  finally show ?case .
qed


lemma generateNeurons_eq:
  "generateNeurons setHex cfg draws =
     \<lparr>positions = concat (map (positionOf draws) [0 ..< neuronCount cfg]),
      colors = concat (map (colorOf setHex draws) [0 ..< neuronCount cfg]),
      sizes = map (\<lambda>i. draws (5 * i + 4) * 2 + 1) [0 ..< neuronCount cfg]\<rparr>"
  unfolding generateNeurons_def
  using neuronLoop_eq [of setHex cfg draws 0 "\<lparr>positions = [], colors = [], sizes = []\<rparr>"]
  by simp

lemma positions_length:
  "length (positions (generateNeurons setHex cfg draws)) = 3 * neuronCount cfg"
  by (simp add: generateNeurons_eq concat_blocks_length [where m = 3] positionOf_def)

lemma colors_nth:
  assumes "i < neuronCount cfg"
  shows "(colors (generateNeurons setHex cfg draws) ! (i * 3),
          colors (generateNeurons setHex cfg draws) ! (i * 3 + 1),
          colors (generateNeurons setHex cfg draws) ! (i * 3 + 2))
         = setHex (colorHex (draws (5 * i + 3)))"
proof -
  have len: "\<And>x. length (colorOf setHex draws x) = 3" by (simp add: colorOf_def)
  have k: "i < length [0 ..< neuronCount cfg]" using assms by simp
  note n = concat_blocks_nth [of "colorOf setHex draws" 3, OF len k]
  have "colors (generateNeurons setHex cfg draws) ! (3 * i + 0)
          = fst (setHex (colorHex (draws (5 * i + 3))))"
    and "colors (generateNeurons setHex cfg draws) ! (3 * i + 1)
          = fst (snd (setHex (colorHex (draws (5 * i + 3)))))"
    and "colors (generateNeurons setHex cfg draws) ! (3 * i + 2)
          = snd (snd (setHex (colorHex (draws (5 * i + 3)))))"
    using n [of 0] n [of 1] n [of 2] assms
    by (simp_all add: generateNeurons_eq colorOf_def)
  moreover have "i * 3 = 3 * i + 0" "i * 3 + 1 = 3 * i + 1" "i * 3 + 2 = 3 * i + 2"
    by simp_all
  ultimately show ?thesis by (simp only: prod.collapse)
qed

lemma sizes_nth:
  assumes "i < neuronCount cfg"
  shows "sizes (generateNeurons setHex cfg draws) ! i = draws (5 * i + 4) * 2 + 1"
  using assms by (simp add: generateNeurons_eq)

lemma sizes_length: "length (sizes (generateNeurons setHex cfg draws)) = neuronCount cfg"
  by (simp add: generateNeurons_eq)

lemma generateNeuralNetwork_arrays:
  "fst (generateNeuralNetwork setHex cfg draws) = generateNeurons setHex cfg draws \<and>
   snd (generateNeuralNetwork setHex cfg draws)
     = generateSynapses cfg (positions (generateNeurons setHex cfg draws)) \<and>
   length (positions (generateNeurons setHex cfg draws)) = 3 * neuronCount cfg"
  by (simp add: generateNeuralNetwork_def Let_def positions_length)

section \<open>Interaction, characterised\<close>

lemma wheel_range: "20 \<le> targetRadius (wheel deltaY s) \<and> targetRadius (wheel deltaY s) \<le> 200"
  by (simp add: wheel_def Let_def)

lemma mousemove_targetRadius: "targetRadius (mousemove cx cy w h s) = targetRadius s"
  by (simp add: mousemove_def)

lemma animate_targetRadius: "targetRadius (animate t s) = targetRadius s"
  by (simp add: animate_def Let_def)

lemma handle_range:
  "20 \<le> targetRadius s \<and> targetRadius s \<le> 200 \<Longrightarrow>
   20 \<le> targetRadius (handle s e) \<and> targetRadius (handle s e) \<le> 200"
  by (cases e) (simp_all add: wheel_range mousemove_targetRadius animate_targetRadius)

lemma foldl_handle_range:
  "20 \<le> targetRadius s \<and> targetRadius s \<le> 200 \<Longrightarrow>
   20 \<le> targetRadius (foldl handle s es) \<and> targetRadius (foldl handle s es) \<le> 200"
proof (induction es arbitrary: s)
  case Nil
  then show ?case by simp
next
  case (Cons e es)
  from Cons.IH [OF handle_range [OF Cons.prems]] show ?case by simp
qed

lemma animate_position:
  "cameraPosition (animate t s) =
     Vector3 (vx (cameraPosition s) + (vx (desired t s) - vx (cameraPosition s)) * 0.05)
             (vy (cameraPosition s) + (vy (desired t s) - vy (cameraPosition s)) * 0.05)
             (vz (cameraPosition s) + (vz (desired t s) - vz (cameraPosition s)) * 0.05)"
  by (simp add: animate_def desired_def Let_def)

lemma smooth_between:
  fixes p d :: real
  shows "between p d (p + (d - p) * 0.05)"
  unfolding between_def min_def max_def
  by (cases "p \<le> d") (simp_all add: field_simps)

lemma smooth_closer:
  fixes p d :: real
  assumes "p \<noteq> d"
  shows "\<bar>p + (d - p) * 0.05 - d\<bar> < \<bar>p - d\<bar>"
proof -
  have "p + (d - p) * 0.05 - d = 0.95 * (p - d)" by (simp add: field_simps)
  then have "\<bar>p + (d - p) * 0.05 - d\<bar> = \<bar>0.95 * (p - d)\<bar>" by (simp only:)
  also have "\<dots> = 0.95 * \<bar>p - d\<bar>" by (simp only: abs_mult) simp
  also have "\<dots> < \<bar>p - d\<bar>" using assms by simp
  finally show ?thesis .
qed

lemma rnd_fixed_grid:
  assumes "rnd x = x"
  shows "\<exists>j. x = of_int j * 2 powr (- 1074)"
  using rnd_grid [of x] assms by simp

lemma double_gap:
  assumes "rnd p = p" and "rnd d = d" and "p < d"
  shows "2 powr (- 1074) \<le> d - p"
proof -
  from rnd_fixed_grid [OF assms(1)] obtain i where p: "p = of_int i * 2 powr (- 1074)" ..
  from rnd_fixed_grid [OF assms(2)] obtain j where d: "d = of_int j * 2 powr (- 1074)" ..
  from assms(3) have "(of_int i :: real) < of_int j"
    unfolding p d by (simp add: mult_less_cancel_right)
  then have "i + 1 \<le> j" by simp
  then have "(of_int (i + 1) :: real) \<le> of_int j" by (simp only: of_int_le_iff)
  then have "of_int (i + 1) * 2 powr (- 1074) \<le> of_int j * (2 powr (- 1074) :: real)"
    by (intro mult_right_mono) simp_all
  then show ?thesis unfolding p d by (simp add: algebra_simps)
qed

lemma step_bound:
  assumes p: "rnd p = p" and d: "rnd d = d" and le: "p \<le> d" and c: "0 \<le> c" "c \<le> 1 / 2"
  shows "0 \<le> rnd (rnd (d - p) * c)" and "rnd (rnd (d - p) * c) \<le> d - p"
proof -
  from le have a: "0 \<le> rnd (d - p)" by (intro rnd_nonneg) simp
  with c(1) show "0 \<le> rnd (rnd (d - p) * c)" by (intro rnd_nonneg) simp
  show "rnd (rnd (d - p) * c) \<le> d - p"
  proof (cases "p = d")
    case True
    then show ?thesis by simp
  next
    case False
    with le have lt: "p < d" by simp
    define z where "z = d - p"
    define k where "k = \<lfloor>log 2 z\<rfloor>"
    from double_gap [OF p d lt] have g: "2 powr (- 1074) \<le> z" by (simp add: z_def)
    moreover have "0 < (2 powr (- 1074) :: real)" by simp
    ultimately have z0: "0 < z" by linarith
    from g z0 have "- 1074 \<le> log 2 z" by (simp add: le_log_iff)
    then have "of_int (- 1074) \<le> log 2 z" by simp
    then have k: "- 1074 \<le> k" unfolding k_def by (simp only: le_floor_iff)
    from z0 have lo: "2 powr of_int k \<le> z" and hi: "z < 2 powr (of_int k + 1)"
      using floor_log_eq_powr_iff [of z 2 k] by (simp_all add: k_def)
    have two: "(2 powr of_int (k + 1) :: real) = 2 * 2 powr of_int k"
      using pow2_add [of k 1] by simp
    from hi have "z \<le> 2 powr of_int (k + 1)" by simp
    then have "rnd z \<le> rnd (2 powr of_int (k + 1))" by (rule rnd_mono)
    also have "\<dots> = 2 powr of_int (k + 1)" using k by (intro rnd_pow2) simp
    finally have "rnd z \<le> 2 * 2 powr of_int k" by (simp only: two)
    moreover from a have "0 \<le> rnd z" by (simp add: z_def)
    ultimately have "rnd z * c \<le> (2 * 2 powr of_int k) * (1 / 2)"
      using c by (intro mult_mono) simp_all
    then have "rnd z * c \<le> 2 powr of_int k" by simp
    then have "rnd (rnd z * c) \<le> rnd (2 powr of_int k)" by (rule rnd_mono)
    also have "\<dots> = 2 powr of_int k" using k by (rule rnd_pow2)
    also note lo
    finally show ?thesis by (simp add: z_def)
  qed
qed

lemma smooth_between_le:
  assumes p: "rnd p = p" and d: "rnd d = d" and le: "p \<le> d" and c: "0 \<le> c" "c \<le> 1 / 2"
  shows "p \<le> rnd (p + rnd (rnd (d - p) * c))" and "rnd (p + rnd (rnd (d - p) * c)) \<le> d"
proof -
  note b = step_bound [OF p d le c]
  from b(1) have "rnd p \<le> rnd (p + rnd (rnd (d - p) * c))" by (intro rnd_mono) simp
  then show "p \<le> rnd (p + rnd (rnd (d - p) * c))" by (simp only: p)
  from b(2) have "rnd (p + rnd (rnd (d - p) * c)) \<le> rnd d" by (intro rnd_mono) simp
  then show "rnd (p + rnd (rnd (d - p) * c)) \<le> d" by (simp only: d)
qed

lemma smooth_between_ge:
  assumes p: "rnd p = p" and d: "rnd d = d" and ge: "d \<le> p" and c: "0 \<le> c" "c \<le> 1 / 2"
  shows "d \<le> rnd (p + rnd (rnd (d - p) * c))" and "rnd (p + rnd (rnd (d - p) * c)) \<le> p"
proof -
  note b = step_bound [OF d p ge c]
  have "rnd (d - p) = - rnd (p - d)" using rnd_minus [of "p - d"] by simp
  then have t: "rnd (rnd (d - p) * c) = - rnd (rnd (p - d) * c)"
    using rnd_minus [of "rnd (p - d) * c"] by simp
  from b(2) have "rnd d \<le> rnd (p + rnd (rnd (d - p) * c))"
    unfolding t by (intro rnd_mono) simp
  then show "d \<le> rnd (p + rnd (rnd (d - p) * c))" by (simp only: d)
  from b(1) have "rnd (p + rnd (rnd (d - p) * c)) \<le> rnd p"
    unfolding t by (intro rnd_mono) simp
  then show "rnd (p + rnd (rnd (d - p) * c)) \<le> p" by (simp only: p)
qed

lemma factor_bounds: "1 / 32 \<le> rnd 0.05" "rnd 0.05 \<le> 1 / 16"
proof -
  have "rnd (1 / 32) \<le> rnd 0.05" by (rule rnd_mono) simp
  moreover have "rnd (1 / 32) = 1 / 32" using rnd_fraction [of 1 5] by simp
  ultimately show "1 / 32 \<le> rnd 0.05" by simp
  have "rnd 0.05 \<le> rnd (1 / 16)" by (rule rnd_mono) simp
  moreover have "rnd (1 / 16) = 1 / 16" using rnd_fraction [of 1 4] by simp
  ultimately show "rnd 0.05 \<le> 1 / 16" by simp
qed

lemma absorbed_step:
  "rnd (4503599627370497 / 2 ^ 52 + rnd (rnd (1 - 4503599627370497 / 2 ^ 52) * rnd 0.05))
     = 4503599627370497 / 2 ^ 52"
proof -
  define p :: real where "p = 4503599627370497 / 2 ^ 52"
  have rp: "rnd p = p" unfolding p_def using rnd_fraction [of 4503599627370497 52] by simp
  have "1 - p = - 1 / 2 ^ 52" by (simp add: p_def)
  moreover have "rnd (- 1 / 2 ^ 52) = - 1 / 2 ^ 52" using rnd_fraction [of "- 1" 52] by simp
  ultimately have a: "rnd (1 - p) = - 1 / 2 ^ 52" by simp
  have lo: "- 1 / 2 ^ 56 \<le> rnd (rnd (1 - p) * rnd 0.05)"
  proof -
    have "- 1 / 2 ^ 56 \<le> - 1 / 2 ^ 52 * rnd 0.05" using factor_bounds(2) by simp
    then have "rnd (- 1 / 2 ^ 56) \<le> rnd (- 1 / 2 ^ 52 * rnd 0.05)" by (rule rnd_mono)
    moreover have "rnd (- 1 / 2 ^ 56) = - 1 / 2 ^ 56" using rnd_fraction [of "- 1" 56] by simp
    ultimately show ?thesis by (simp only: a)
  qed
  have hi: "rnd (rnd (1 - p) * rnd 0.05) \<le> 0"
  proof -
    have "- 1 / 2 ^ 52 * rnd 0.05 \<le> 0" using factor_bounds(1) by simp
    then have "rnd (- 1 / 2 ^ 52 * rnd 0.05) \<le> rnd 0" by (rule rnd_mono)
    then show ?thesis by (simp only: a rnd_0)
  qed
  have "rnd (p - 1 / 2 ^ 56)
      = of_int (roundTiesToEven ((p - 1 / 2 ^ 56) * 2 ^ (52 - 0))) / 2 ^ (52 - 0)"
    by (rule rnd_eval) (simp_all add: p_def)
  also have "\<dots> = p" by (simp add: p_def roundTiesToEven_def)
  finally have near: "rnd (p - 1 / 2 ^ 56) = p" .
  from lo have "rnd (p - 1 / 2 ^ 56) \<le> rnd (p + rnd (rnd (1 - p) * rnd 0.05))"
    by (intro rnd_mono) simp
  moreover from hi have "rnd (p + rnd (rnd (1 - p) * rnd 0.05)) \<le> rnd p"
    by (intro rnd_mono) simp
  ultimately have "rnd (p + rnd (rnd (1 - p) * rnd 0.05)) = p"
    unfolding near rp by simp
  then show ?thesis by (simp only: p_def)
qed

lemma smooth_between64:
  assumes "rnd p = p" and "rnd d = d"
  shows "between p d (rnd (p + rnd (rnd (d - p) * rnd 0.05)))"
proof -
  from factor_bounds have c: "0 \<le> rnd 0.05" "rnd 0.05 \<le> 1 / 2" by simp_all
  show ?thesis
  proof (cases "p \<le> d")
    case True
    with smooth_between_le [OF assms True c] show ?thesis
      by (simp add: between_def min_def max_def)
  next
    case False
    then have "d \<le> p" by simp
    from smooth_between_ge [OF assms this c] False show ?thesis
      by (simp add: between_def min_def max_def)
  qed
qed

lemma between_closer: "between p d v \<Longrightarrow> \<bar>v - d\<bar> \<le> \<bar>p - d\<bar>"
  by (auto simp: between_def min_def max_def abs_if split: if_splits)

lemma between_strict: "between p d v \<Longrightarrow> v \<noteq> p \<Longrightarrow> \<bar>v - d\<bar> < \<bar>p - d\<bar>"
  by (auto simp: between_def min_def max_def abs_if split: if_splits)

lemma step_from_1: "rnd (1 + rnd (rnd (0 - 1) * rnd 0.05)) \<le> 31 / 32"
proof -
  have "rnd (- rnd 0.05) = - rnd 0.05" by (simp add: rnd_minus)
  then have "rnd (rnd (0 - 1) * rnd 0.05) = - rnd 0.05" by simp
  moreover have "rnd (1 + - rnd 0.05) \<le> rnd (31 / 32)"
    using factor_bounds(1) by (intro rnd_mono) simp
  moreover have "rnd (31 / 32) = 31 / 32" using rnd_fraction [of 31 5] by simp
  ultimately show ?thesis by simp
qed

lemma step_from_100: "rnd (100 + rnd (rnd (80 - 100) * rnd 0.05)) \<le> 795 / 8"
proof -
  have "rnd (5 / 8) \<le> rnd (20 * rnd 0.05)"
    using factor_bounds(1) by (intro rnd_mono) simp
  moreover have "rnd (5 / 8) = 5 / 8" using rnd_fraction [of 5 3] by simp
  ultimately have "5 / 8 \<le> rnd (20 * rnd 0.05)" by simp
  moreover have "rnd (rnd (80 - 100) * rnd 0.05) = - rnd (20 * rnd 0.05)"
    using rnd_minus [of "20 * rnd 0.05"] by simp
  ultimately have "rnd (100 + rnd (rnd (80 - 100) * rnd 0.05)) \<le> rnd (795 / 8)"
    by (intro rnd_mono) simp
  moreover have "rnd (795 / 8) = 795 / 8" using rnd_fraction [of 795 3] by simp
  ultimately show ?thesis by simp
qed

lemma animate64_position:
  "cameraPosition (animate64 Math_sin Math_cos t s) =
     Vector3
       (rnd (vx (cameraPosition s)
          + rnd (rnd (vx (desired64 Math_sin Math_cos t s) - vx (cameraPosition s)) * rnd 0.05)))
       (rnd (vy (cameraPosition s)
          + rnd (rnd (vy (desired64 Math_sin Math_cos t s) - vy (cameraPosition s)) * rnd 0.05)))
       (rnd (vz (cameraPosition s)
          + rnd (rnd (vz (desired64 Math_sin Math_cos t s) - vz (cameraPosition s)) * rnd 0.05)))"
  by (simp add: animate64_def desired64_def Let_def)

section \<open>Properties of the connection scan\<close>

text \<open>
  C1. No point originates more than six connections: the line array is the
  concatenation of the segments of the recorded index pairs, and for every index
  \<open>i\<close> at most \<open>5 + 1\<close> of those pairs have \<open>i\<close> as their first (lower) index.
  The counter is compared with the cap only after it has been incremented, so the
  sixth connection is still emitted before the inner loop is left.
\<close>

theorem out_degree_bounded:
  "generateSynapses cfg ps = concat (map (lineOf ps) (connectionPairs cfg ps)) \<and>
   length (filter (\<lambda>e. fst e = i) (connectionPairs cfg ps)) \<le> 6"
  using neighbours_length [of cfg ps i]
  by (simp add: generateSynapses_connectionPairs connectionPairs_scanOrder scanOrder_count)

text \<open>
  C2, as amended. Every connection joins two points whose distance, as the scan
  computes it in double precision, is below \<^verbatim>\<open>connectionDistance\<close>: the
  \<open>k\<close>-th segment of the line array consists of the coordinates of two points
  \<open>i < j\<close> of the position array, and \<open>distanceTo\<close> of its two endpoints is
  strictly below the threshold. The exact distance of the two points is not always
  below it: the scan joins the pair of \<open>connection_exact_distance_counterexample\<close>,
  whose computed distance is \<open>15 - 2 powr - 49\<close> and whose exact distance is
  above 15.
\<close>

theorem connection_within_distance:
  assumes "length ps = 3 * neuronCount cfg"
    and "list_all (doubleWithin (2 ^ 500)) ps"
    and "isDouble (connectionDistance cfg)"
    and "k < length (generateSynapses cfg ps) div 6"
  shows "\<exists>i j. i < j \<and> j < neuronCount cfg \<and>
           vectorAt (generateSynapses cfg ps) (2 * k) = vectorAt ps i \<and>
           vectorAt (generateSynapses cfg ps) (2 * k + 1) = vectorAt ps j \<and>
           distanceTo (vectorAt (generateSynapses cfg ps) (2 * k))
                      (vectorAt (generateSynapses cfg ps) (2 * k + 1)) < connectionDistance cfg"
proof -
  from assms(4) have k: "k < length (connectionPairs cfg ps)"
    by (simp add: generateSynapses_length)
  obtain i j where e: "connectionPairs cfg ps ! k = (i, j)"
    by (cases "connectionPairs cfg ps ! k")
  with k have "(i, j) \<in> set (connectionPairs cfg ps)"
    by (metis nth_mem)
  then have ij: "i < j" "j < neuronCount cfg" "near cfg ps i j"
    by (simp_all add: connectionPairs_mem)
  have "vectorAt (generateSynapses cfg ps) (2 * k) = vectorAt ps i"
    and "vectorAt (generateSynapses cfg ps) (2 * k + 1) = vectorAt ps j"
    using generateSynapses_endpoints [OF k] e by simp_all
  with ij show ?thesis by (auto simp: near_def)
qed

theorem connection_within_distance_witness:
  "length [0, 0, 0, 3, 4, 0, 100, 0, 0 :: real] = 3 * neuronCount (CONFIG\<lparr>neuronCount := 3\<rparr>) \<and>
   list_all (doubleWithin (2 ^ 500)) [0, 0, 0, 3, 4, 0, 100, 0, 0] \<and>
   isDouble (connectionDistance (CONFIG\<lparr>neuronCount := 3\<rparr>)) \<and>
   generateSynapses (CONFIG\<lparr>neuronCount := 3\<rparr>) [0, 0, 0, 3, 4, 0, 100, 0, 0] = [0, 0, 0, 3, 4, 0] \<and>
   0 < length (generateSynapses (CONFIG\<lparr>neuronCount := 3\<rparr>) [0, 0, 0, 3, 4, 0, 100, 0, 0]) div 6 \<and>
   (\<exists>i j. i < j \<and> j < neuronCount (CONFIG\<lparr>neuronCount := 3\<rparr>) \<and>
      vectorAt (generateSynapses (CONFIG\<lparr>neuronCount := 3\<rparr>) [0, 0, 0, 3, 4, 0, 100, 0, 0]) (2 * 0)
        = vectorAt [0, 0, 0, 3, 4, 0, 100, 0, 0] i \<and>
      vectorAt (generateSynapses (CONFIG\<lparr>neuronCount := 3\<rparr>) [0, 0, 0, 3, 4, 0, 100, 0, 0]) (2 * 0 + 1)
        = vectorAt [0, 0, 0, 3, 4, 0, 100, 0, 0] j \<and>
      distanceTo
        (vectorAt (generateSynapses (CONFIG\<lparr>neuronCount := 3\<rparr>) [0, 0, 0, 3, 4, 0, 100, 0, 0]) (2 * 0))
        (vectorAt (generateSynapses (CONFIG\<lparr>neuronCount := 3\<rparr>) [0, 0, 0, 3, 4, 0, 100, 0, 0]) (2 * 0 + 1))
        < connectionDistance (CONFIG\<lparr>neuronCount := 3\<rparr>))"
proof -
  have lines: "generateSynapses (CONFIG\<lparr>neuronCount := 3\<rparr>) [0, 0, 0, 3, 4, 0, 100, 0, 0]
      = [0, 0, 0, 3, 4, 0]"
    by (simp add: CONFIG_def generateSynapses_def scan_eval)
  have len: "length [0, 0, 0, 3, 4, 0, 100, 0, 0 :: real] = 3 * neuronCount (CONFIG\<lparr>neuronCount := 3\<rparr>)"
    by simp
  have dbl: "list_all (doubleWithin (2 ^ 500)) [0, 0, 0, 3, 4, 0, 100, 0, 0]"
    by (simp add: doubleWithin_def isDouble_def)
  have cd: "isDouble (connectionDistance (CONFIG\<lparr>neuronCount := 3\<rparr>))"
    by (simp add: CONFIG_def isDouble_def)
  have k: "0 < length (generateSynapses (CONFIG\<lparr>neuronCount := 3\<rparr>) [0, 0, 0, 3, 4, 0, 100, 0, 0]) div 6"
    by (simp add: lines)
  from connection_within_distance [OF len dbl cd k] len dbl cd lines k show ?thesis
    by blast
qed

theorem connection_exact_distance_counterexample:
  "list_all (doubleWithin (2 ^ 500))
     [0, 0, 0, 6105312898908172 / 2 ^ 49, 5099548398022050 / 2 ^ 49, 5665723892140930 / 2 ^ 50] \<and>
   generateSynapses (CONFIG\<lparr>neuronCount := 2\<rparr>)
     [0, 0, 0, 6105312898908172 / 2 ^ 49, 5099548398022050 / 2 ^ 49, 5665723892140930 / 2 ^ 50]
     = [0, 0, 0, 6105312898908172 / 2 ^ 49, 5099548398022050 / 2 ^ 49, 5665723892140930 / 2 ^ 50] \<and>
   distanceTo (Vector3 0 0 0)
     (Vector3 (6105312898908172 / 2 ^ 49) (5099548398022050 / 2 ^ 49) (5665723892140930 / 2 ^ 50))
     = 8444249301319679 / 2 ^ 49 \<and>
   \<not> euclidean (Vector3 0 0 0)
     (Vector3 (6105312898908172 / 2 ^ 49) (5099548398022050 / 2 ^ 49) (5665723892140930 / 2 ^ 50))
     < connectionDistance (CONFIG\<lparr>neuronCount := 2\<rparr>)"
proof -
  define X :: real where "X = 6105312898908172 / 2 ^ 49"
  define Y :: real where "Y = 5099548398022050 / 2 ^ 49"
  define Z :: real where "Z = 5665723892140930 / 2 ^ 50"
  note v9 = v9_distance [folded X_def Y_def Z_def]
  have dbl: "list_all (doubleWithin (2 ^ 500)) [0, 0, 0, X, Y, Z]"
  proof -
    have "rnd X = X" unfolding X_def using rnd_fraction [of 6105312898908172 49] by simp
    moreover have "rnd Y = Y" unfolding Y_def using rnd_fraction [of 5099548398022050 49] by simp
    moreover have "rnd Z = Z" unfolding Z_def using rnd_fraction [of 5665723892140930 50] by simp
    moreover have "\<bar>X\<bar> \<le> 16" "\<bar>Y\<bar> \<le> 16" "\<bar>Z\<bar> \<le> 16"
      by (simp_all add: X_def Y_def Z_def)
    ultimately show ?thesis by (simp add: doubleWithin_def isDouble_def)
  qed
  have lt: "distanceTo (Vector3 0 0 0) (Vector3 X Y Z) < 15"
    unfolding v9(2) by simp
  have lines: "generateSynapses (CONFIG\<lparr>neuronCount := 2\<rparr>) [0, 0, 0, X, Y, Z] = [0, 0, 0, X, Y, Z]"
    using lt
    by (simp add: CONFIG_def generateSynapses_def outerScan.simps innerScan.simps vectorAt_def
        pushLine_def)
  have "15 \<le> euclidean (Vector3 0 0 0) (Vector3 X Y Z)"
  proof -
    from v9(3) have "(15 :: real)\<^sup>2 \<le> (0 - X)\<^sup>2 + (0 - Y)\<^sup>2 + (0 - Z)\<^sup>2" by simp
    then show ?thesis unfolding euclidean_def Vector3.sel by (rule real_le_rsqrt)
  qed
  then have far: "\<not> euclidean (Vector3 0 0 0) (Vector3 X Y Z)
      < connectionDistance (CONFIG\<lparr>neuronCount := 2\<rparr>)"
    by (simp add: CONFIG_def)
  from dbl lines v9(2) far show ?thesis
    unfolding X_def Y_def Z_def by (intro conjI)
qed


text \<open>
  C5. The connections appear in the order of the nested scan: the line array is
  the segments of \<open>scanOrder\<close>, which lists \<open>i\<close> in ascending order and within
  each \<open>i\<close> the near points \<open>j > i\<close> in ascending order; the recorded index
  pairs are strictly increasing in the lexicographic order. The builder is a
  function of the configuration and the position array alone, so a repeated build
  gives the same list.
\<close>

theorem connections_in_scan_order:
  "generateSynapses cfg ps = concat (map (lineOf ps) (scanOrder cfg ps)) \<and>
   connectionPairs cfg ps = scanOrder cfg ps \<and>
   sorted_wrt (\<lambda>a b. fst a < fst b \<or> fst a = fst b \<and> snd a < snd b) (connectionPairs cfg ps)"
  by (simp add: generateSynapses_scanOrder connectionPairs_scanOrder scanOrder_sorted)

text \<open>
  C9. No self-connection and no repeated pair: every recorded pair has its first
  index strictly below its second, no pair occurs twice, and no two pairs join the
  same two points.
\<close>

theorem no_self_or_repeated_connection:
  "generateSynapses cfg ps = concat (map (lineOf ps) (connectionPairs cfg ps)) \<and>
   (\<forall>e \<in> set (connectionPairs cfg ps). fst e < snd e) \<and>
   distinct (connectionPairs cfg ps) \<and>
   distinct (map (\<lambda>e. {fst e, snd e}) (connectionPairs cfg ps))"
proof -
  have lt: "\<forall>e \<in> set (connectionPairs cfg ps). fst e < snd e"
    using connectionPairs_mem by fastforce
  have d: "distinct (connectionPairs cfg ps)"
    by (simp add: connectionPairs_scanOrder scanOrder_distinct)
  have "inj_on (\<lambda>e. {fst e, snd e}) (set (connectionPairs cfg ps))"
  proof (rule inj_onI)
    fix a b :: "nat \<times> nat"
    assume "a \<in> set (connectionPairs cfg ps)" "b \<in> set (connectionPairs cfg ps)"
      and eq: "{fst a, snd a} = {fst b, snd b}"
    with lt have "fst a < snd a" "fst b < snd b" by simp_all
    with eq show "a = b" by (auto simp: doubleton_eq_iff prod_eq_iff)
  qed
  with d have "distinct (map (\<lambda>e. {fst e, snd e}) (connectionPairs cfg ps))"
    by (simp add: distinct_map)
  with lt d show ?thesis by (simp add: generateSynapses_connectionPairs)
qed


theorem no_self_or_repeated_connection_witness:
  "connectionPairs (CONFIG\<lparr>neuronCount := 3\<rparr>) [0, 0, 0, 3, 4, 0, 100, 0, 0] = [(0, 1)] \<and>
   (0, 1) \<in> set (connectionPairs (CONFIG\<lparr>neuronCount := 3\<rparr>) [0, 0, 0, 3, 4, 0, 100, 0, 0]) \<and>
   fst (0 :: nat, 1 :: nat) < snd (0 :: nat, 1 :: nat) \<and>
   distinct (connectionPairs (CONFIG\<lparr>neuronCount := 3\<rparr>) [0, 0, 0, 3, 4, 0, 100, 0, 0]) \<and>
   distinct (map (\<lambda>e. {fst e, snd e})
     (connectionPairs (CONFIG\<lparr>neuronCount := 3\<rparr>) [0, 0, 0, 3, 4, 0, 100, 0, 0]))"
proof -
  have pairs: "connectionPairs (CONFIG\<lparr>neuronCount := 3\<rparr>) [0, 0, 0, 3, 4, 0, 100, 0, 0] = [(0, 1)]"
    by (simp add: CONFIG_def connectionPairs_def scan_eval)
  then have mem:
    "(0, 1) \<in> set (connectionPairs (CONFIG\<lparr>neuronCount := 3\<rparr>) [0, 0, 0, 3, 4, 0, 100, 0, 0])"
    by simp
  from no_self_or_repeated_connection
         [of "CONFIG\<lparr>neuronCount := 3\<rparr>" "[0, 0, 0, 3, 4, 0, 100, 0, 0]"] pairs mem
  show ?thesis by blast
qed

section \<open>Properties of the interaction and the camera\<close>

text \<open>
  C3. One frame moves every axis of the camera by \<open>0.05\<close> of its distance to the
  orbit target, each axis on its own: \<open>new = previous + (desired - previous) * 0.05\<close>,
  where the target is \<open>(sin angle * targetRadius, mouseY, cos angle * targetRadius)\<close>
  and \<open>angle = time * 0.1 + mouseX * 0.01\<close>. At time \<open>0\<close> in the initial state
  (pointer offsets \<open>0\<close>, radius \<open>80\<close>, camera at \<open>(0, 0, 100)\<close>) the target is
  \<open>(0, 0, 80)\<close> and the camera moves to \<open>(0, 0, 99)\<close>: its distance to the target
  drops from \<open>20\<close> to \<open>19\<close>, a step of exactly \<open>0.05 * (80 - 100)\<close>.
\<close>

theorem camera_step_rule:
  "cameraPosition (animate t s) =
     Vector3 (vx (cameraPosition s) + (vx (desired t s) - vx (cameraPosition s)) * 0.05)
             (vy (cameraPosition s) + (vy (desired t s) - vy (cameraPosition s)) * 0.05)
             (vz (cameraPosition s) + (vz (desired t s) - vz (cameraPosition s)) * 0.05) \<and>
   desired t s = Vector3 (sin (t * 0.1 + mouseX s * 0.01) * targetRadius s) (mouseY s)
                         (cos (t * 0.1 + mouseX s * 0.01) * targetRadius s) \<and>
   desired 0 initialState = Vector3 0 0 80 \<and>
   cameraPosition initialState = Vector3 0 0 100 \<and>
   cameraPosition (animate 0 initialState) = Vector3 0 0 99 \<and>
   distanceTo (cameraPosition (animate 0 initialState)) (Vector3 0 0 80) = 19 \<and>
   distanceTo (cameraPosition initialState) (Vector3 0 0 80) = 20 \<and>
   distanceTo (cameraPosition (animate 0 initialState)) (Vector3 0 0 80)
     < distanceTo (cameraPosition initialState) (Vector3 0 0 80) \<and>
   vz (cameraPosition (animate 0 initialState)) - vz (cameraPosition initialState)
     = 0.05 * (80 - 100)"
proof -
  have d0: "desired 0 initialState = Vector3 0 0 80"
    by (simp add: desired_def initialState_def)
  have p0: "cameraPosition initialState = Vector3 0 0 100"
    by (simp add: initialState_def)
  have p1: "cameraPosition (animate 0 initialState) = Vector3 0 0 99"
    by (simp add: animate_position d0 p0)
  have s19: "sqrt (19 * 19) = 19" and s20: "sqrt (20 * 20) = 20"
    by (simp_all only: real_sqrt_abs2 abs_numeral)
  have a: "distanceTo (Vector3 0 0 99) (Vector3 0 0 80) = 19"
    using s19 by (simp add: distanceTo_def distanceToSquared_def)
  have b: "distanceTo (Vector3 0 0 100) (Vector3 0 0 80) = 20"
    using s20 by (simp add: distanceTo_def distanceToSquared_def)
  show ?thesis
    unfolding p1 p0 d0 a b
    by (simp add: animate_position desired_def Let_def)
qed

text \<open>
  C4. \<^verbatim>\<open>targetRadius\<close> stays in \<open>[20, 200]\<close>: after one wheel event applied to
  any state, whatever the delta; after any sequence of events (wheel events, pointer
  moves and frames) from the initial state, where it is \<open>80\<close>; in particular after
  any sequence of wheel events alone. A delta of \<open>-1000\<close> at radius \<open>80\<close> gives
  exactly \<open>20\<close>.
\<close>

theorem targetRadius_clamped:
  "20 \<le> targetRadius (wheel deltaY s) \<and> targetRadius (wheel deltaY s) \<le> 200 \<and>
   20 \<le> targetRadius (run events) \<and> targetRadius (run events) \<le> 200 \<and>
   20 \<le> targetRadius (run (map Wheel deltas)) \<and> targetRadius (run (map Wheel deltas)) \<le> 200 \<and>
   targetRadius initialState = 80 \<and>
   targetRadius (wheel (- 1000) (s\<lparr>targetRadius := 80\<rparr>)) = 20"
proof -
  have init: "20 \<le> targetRadius initialState \<and> targetRadius initialState \<le> 200"
    by (simp add: initialState_def)
  have "targetRadius (wheel (- 1000) (s\<lparr>targetRadius := 80\<rparr>)) = 20"
    by (simp add: wheel_def Let_def)
  moreover have "targetRadius initialState = 80"
    by (simp add: initialState_def)
  ultimately show ?thesis
    using wheel_range [of deltaY s] foldl_handle_range [OF init, of events]
      foldl_handle_range [OF init, of "map Wheel deltas"]
    unfolding run_def by blast
qed




section \<open>Properties of the sampled neurons\<close>

text \<open>
  C7. Colour and size come from one draw each. The three colour channels pushed
  for point \<open>i\<close> are those of the hex code chosen from its fourth draw: above
  \<open>0.9\<close> gold (\<^verbatim>\<open>0xffd700\<close>), otherwise above \<open>0.6\<close> cyan
  (\<^verbatim>\<open>0x00ffff\<close>), otherwise white (\<^verbatim>\<open>0xffffff\<close>), tested in this order.
  The size is its fifth draw times two plus one, which lies in \<open>[1, 3]\<close>.
\<close>

theorem color_and_size_of_draw:
  assumes "\<forall>k. 0 \<le> draws k \<and> draws k < 1" and "i < neuronCount cfg"
  shows "(colors (generateNeurons setHex cfg draws) ! (i * 3),
          colors (generateNeurons setHex cfg draws) ! (i * 3 + 1),
          colors (generateNeurons setHex cfg draws) ! (i * 3 + 2))
           = setHex (colorHex (draws (5 * i + 3))) \<and>
         colorHex u = (if u > 0.9 then 0xffd700 else if u > 0.6 then 0x00ffff else 0xffffff) \<and>
         sizes (generateNeurons setHex cfg draws) ! i = draws (5 * i + 4) * 2 + 1 \<and>
         1 \<le> sizes (generateNeurons setHex cfg draws) ! i \<and>
         sizes (generateNeurons setHex cfg draws) ! i \<le> 3"
proof -
  from assms(1) have "0 \<le> draws (5 * i + 4)" "draws (5 * i + 4) < 1" by simp_all
  then have "1 \<le> draws (5 * i + 4) * 2 + 1" "draws (5 * i + 4) * 2 + 1 \<le> 3" by simp_all
  with colors_nth [OF assms(2), of setHex draws] sizes_nth [OF assms(2), of setHex draws]
  show ?thesis by (simp add: colorHex_def)
qed

theorem color_and_size_of_draw_witness:
  "(\<forall>k. 0 \<le> (\<lambda>k. 19 / 20 :: real) k \<and> (\<lambda>k. 19 / 20 :: real) k < 1) \<and>
   0 < neuronCount (CONFIG\<lparr>neuronCount := 2\<rparr>) \<and>
   generateNeurons (\<lambda>hex. (real hex, 0, 0)) (CONFIG\<lparr>neuronCount := 2\<rparr>) (\<lambda>k. 0)
     = \<lparr>positions = [0, 0, 0, 0, 0, 0], colors = [0xffffff, 0, 0, 0xffffff, 0, 0], sizes = [1, 1]\<rparr> \<and>
   (colors (generateNeurons (\<lambda>hex. (real hex, 0, 0)) (CONFIG\<lparr>neuronCount := 2\<rparr>) (\<lambda>k. 19 / 20)) ! (0 * 3),
    colors (generateNeurons (\<lambda>hex. (real hex, 0, 0)) (CONFIG\<lparr>neuronCount := 2\<rparr>) (\<lambda>k. 19 / 20)) ! (0 * 3 + 1),
    colors (generateNeurons (\<lambda>hex. (real hex, 0, 0)) (CONFIG\<lparr>neuronCount := 2\<rparr>) (\<lambda>k. 19 / 20)) ! (0 * 3 + 2))
     = (0xffd700, 0, 0) \<and>
   colorHex (19 / 20) = 0xffd700 \<and> colorHex (7 / 10) = 0x00ffff \<and> colorHex (9 / 10) = 0x00ffff \<and>
   colorHex (6 / 10) = 0xffffff \<and> colorHex 0 = 0xffffff \<and>
   sizes (generateNeurons (\<lambda>hex. (real hex, 0, 0)) (CONFIG\<lparr>neuronCount := 2\<rparr>) (\<lambda>k. 19 / 20)) ! 0
     = 29 / 10"
proof -
  have h: "\<forall>k. 0 \<le> (\<lambda>k. 19 / 20 :: real) k \<and> (\<lambda>k. 19 / 20 :: real) k < 1" by simp
  have n: "0 < neuronCount (CONFIG\<lparr>neuronCount := 2\<rparr>)" by simp
  have run: "generateNeurons (\<lambda>hex. (real hex, 0, 0)) (CONFIG\<lparr>neuronCount := 2\<rparr>) (\<lambda>k. 0)
     = \<lparr>positions = [0, 0, 0, 0, 0, 0], colors = [0xffffff, 0, 0, 0xffffff, 0, 0], sizes = [1, 1]\<rparr>"
    by (simp add: generateNeurons_def neuronLoop.simps neuronStep_def Math_random_def
        sphericalPoint_def colorHex_def)
  have c: "colorHex (19 / 20) = 0xffd700" "colorHex (7 / 10) = 0x00ffff"
    "colorHex (9 / 10) = 0x00ffff" "colorHex (6 / 10) = 0xffffff" "colorHex 0 = 0xffffff"
    by (simp_all add: colorHex_def)
  from color_and_size_of_draw [OF h n, of "\<lambda>hex. (real hex, 0, 0)" 0] h n run c
  show ?thesis by simp
qed

end
